theory Spec2Isabelle
  imports Complex_Main "HOL-Library.Word" "HOL-Library.Stream" "HOL-Library.Log_Nat"
    "HOL-Library.Multiset"
begin

unbundle bit_operations_syntax

section \<open>JavaScript values used by the generator\<close>

text \<open>
  The fields of \<^verbatim>\<open>PasswordOptions\<close> typed \<^verbatim>\<open>number\<close> are IEEE doubles. The model keeps
  the values on which the comparisons, \<^verbatim>\<open>Math.floor\<close>, \<^verbatim>\<open>Math.max\<close> and the loop
  tests of \<^verbatim>\<open>src/pwd-gen.ts\<close> behave differently: a finite number (a rational here),
  \<^verbatim>\<open>NaN\<close> and the two infinities.
\<close>

datatype jsnum = Fin rat | NaN | PosInf | NegInf

text \<open>\<^verbatim>\<open>a < b\<close> on numbers: every comparison with \<^verbatim>\<open>NaN\<close> is false.\<close>

fun js_lt :: "jsnum \<Rightarrow> jsnum \<Rightarrow> bool" where
  "js_lt NaN b = False"
| "js_lt a NaN = False"
| "js_lt (Fin a) (Fin b) = (a < b)"
| "js_lt (Fin a) PosInf = True"
| "js_lt (Fin a) NegInf = False"
| "js_lt PosInf b = False"
| "js_lt NegInf NegInf = False"
| "js_lt NegInf b = True"

text \<open>\<^verbatim>\<open>a > b\<close> is \<^verbatim>\<open>b < a\<close>.\<close>

definition js_gt :: "jsnum \<Rightarrow> jsnum \<Rightarrow> bool" where
  "js_gt a b = js_lt b a"

text \<open>\<^verbatim>\<open>a >= b\<close>: false when either side is \<^verbatim>\<open>NaN\<close>, otherwise not \<^verbatim>\<open>a < b\<close>.\<close>

definition js_ge :: "jsnum \<Rightarrow> jsnum \<Rightarrow> bool" where
  "js_ge a b = (a \<noteq> NaN \<and> b \<noteq> NaN \<and> \<not> js_lt a b)"

definition isNaN :: "jsnum \<Rightarrow> bool" where
  "isNaN a = (a = NaN)"

fun Math_floor :: "jsnum \<Rightarrow> jsnum" where
  "Math_floor (Fin q) = Fin (of_int \<lfloor>q\<rfloor>)"
| "Math_floor a = a"

text \<open>\<^verbatim>\<open>Math.max(a, b)\<close>: \<^verbatim>\<open>NaN\<close> as soon as one argument is \<^verbatim>\<open>NaN\<close>.\<close>

fun Math_max :: "jsnum \<Rightarrow> jsnum \<Rightarrow> jsnum" where
  "Math_max NaN b = NaN"
| "Math_max a NaN = NaN"
| "Math_max PosInf b = PosInf"
| "Math_max a PosInf = PosInf"
| "Math_max NegInf b = b"
| "Math_max a NegInf = a"
| "Math_max (Fin a) (Fin b) = Fin (max a b)"

text \<open>
  The number of times the body of \<^verbatim>\<open>for (let i = start; i < bound; i++)\<close> runs, for an
  integer \<^verbatim>\<open>start\<close>; \<open>None\<close> when the test never becomes false.
\<close>

fun loop_count :: "nat \<Rightarrow> jsnum \<Rightarrow> nat option" where
  "loop_count start (Fin q) = Some (nat (\<lceil>q\<rceil> - int start))"
| "loop_count start NaN = Some 0"
| "loop_count start NegInf = Some 0"
| "loop_count start PosInf = None"

text \<open>
  A string is a list of code units; \<^verbatim>\<open>s[i]\<close> is \<^verbatim>\<open>undefined\<close> (\<open>None\<close>) when \<^verbatim>\<open>i\<close> is
  not an index of \<^verbatim>\<open>s\<close>. The same holds for an array.
\<close>

definition js_at :: "'a list \<Rightarrow> int \<Rightarrow> 'a option" where
  "js_at xs i = (if 0 \<le> i \<and> nat i < length xs then Some (xs ! nat i) else None)"

text \<open>\<^verbatim>\<open>Array.prototype.join\<close>: an \<^verbatim>\<open>undefined\<close> element contributes the empty string.\<close>

fun js_join :: "string \<Rightarrow> string option list \<Rightarrow> string" where
  "js_join sep [] = []"
| "js_join sep [x] = (case x of None \<Rightarrow> [] | Some w \<Rightarrow> w)"
| "js_join sep (x # y # ys) =
     (case x of None \<Rightarrow> [] | Some w \<Rightarrow> w) @ sep @ js_join sep (y # ys)"

text \<open>The same for an array of one-character strings joined with the empty string.\<close>

definition join_chars :: "char option list \<Rightarrow> string" where
  "join_chars cs = concat (map (\<lambda>c. case c of None \<Rightarrow> [] | Some x \<Rightarrow> [x]) cs)"

section \<open>Options, presets and errors\<close>

datatype gen_mode = Random | Passphrase

text \<open>
  \<^verbatim>\<open>PasswordOptions\<close>: every field is optional; \<open>None\<close> is an absent (or
  \<^verbatim>\<open>undefined\<close>) field. The preset is kept as a string, so that names outside the table
  can be given, as an untyped caller can.
\<close>

record PasswordOptions =
  mode :: "gen_mode option"
  length' :: "jsnum option"
  isSpecial :: "bool option"
  customCharset :: "string option"
  excludeSimilar :: "bool option"
  minLower :: "jsnum option"
  minUpper :: "jsnum option"
  minDigit :: "jsnum option"
  minSpecial :: "jsnum option"
  separator :: "string option"
  wordlist :: "string list option"
  preset :: "string option"

definition no_options :: PasswordOptions where
  "no_options = \<lparr>mode = None, length' = None, isSpecial = None, customCharset = None,
     excludeSimilar = None, minLower = None, minUpper = None, minDigit = None,
     minSpecial = None, separator = None, wordlist = None, preset = None\<rparr>"

text \<open>The table \<^verbatim>\<open>PRESETS\<close>; a name outside it has no own property there.\<close>

definition PRESETS :: "string \<Rightarrow> PasswordOptions option" where
  "PRESETS name =
     (if name = ''wifi'' then
        Some (no_options\<lparr>length' := Some (Fin 16), isSpecial := Some False,
                         excludeSimilar := Some True\<rparr>)
      else if name = ''enterprise'' then
        Some (no_options\<lparr>length' := Some (Fin 20), minSpecial := Some (Fin 2),
                         minDigit := Some (Fin 2), minUpper := Some (Fin 2)\<rparr>)
      else if name = ''legacy'' then
        Some (no_options\<lparr>length' := Some (Fin 8), isSpecial := Some True\<rparr>)
      else if name = ''ultra'' then
        Some (no_options\<lparr>length' := Some (Fin 64), minSpecial := Some (Fin 10),
                         minDigit := Some (Fin 10)\<rparr>)
      else None)"

text \<open>One field of \<^verbatim>\<open>{ ...a, ...b }\<close>: the value of \<^verbatim>\<open>b\<close> when \<^verbatim>\<open>b\<close> has the field.\<close>

definition later :: "'a option \<Rightarrow> 'a option \<Rightarrow> 'a option" where
  "later a b = (case b of Some v \<Rightarrow> Some v | None \<Rightarrow> a)"

definition spread :: "PasswordOptions \<Rightarrow> PasswordOptions \<Rightarrow> PasswordOptions" where
  "spread a b =
     \<lparr>mode = later (mode a) (mode b), length' = later (length' a) (length' b),
      isSpecial = later (isSpecial a) (isSpecial b),
      customCharset = later (customCharset a) (customCharset b),
      excludeSimilar = later (excludeSimilar a) (excludeSimilar b),
      minLower = later (minLower a) (minLower b),
      minUpper = later (minUpper a) (minUpper b),
      minDigit = later (minDigit a) (minDigit b),
      minSpecial = later (minSpecial a) (minSpecial b),
      separator = later (separator a) (separator b),
      wordlist = later (wordlist a) (wordlist b),
      preset = later (preset a) (preset b)\<rparr>"

text \<open>
  The errors thrown by \<^verbatim>\<open>src/pwd-gen.ts\<close>, one per message, and the \<^verbatim>\<open>RangeError\<close> of
  \<^verbatim>\<open>new Uint8Array\<close> on a length that is no index. \<open>UnknownPreset\<close> is the error of
  \<^verbatim>\<open>src/cli.ts\<close>; the class never throws it.
\<close>

datatype error =
    InvalidLength
  | EmptyCharset
  | EmptyCharsetAfterExclusion
  | InvalidPassphraseLength
  | MinimumsExceedLength
  | UnknownPreset
  | RangeError

section \<open>The constructor\<close>

definition LOWER :: string where
  "LOWER = ''abcdefghijklmnopqrstuvwxyz''"

definition UPPER :: string where
  "UPPER = ''ABCDEFGHIJKLMNOPQRSTUVWXYZ''"

definition DIGITS :: string where
  "DIGITS = ''0123456789''"

definition SPECIAL :: string where
  "SPECIAL = ''!@#$%^&*()_+-=[]{}|;'' @ [CHR 0x27] @ '':'' @ [CHR 0x22] @ '',./<>?''"

text \<open>\<^verbatim>\<open>SIMILAR_CHARS = /[il1Lo0O]/g\<close>, and \<^verbatim>\<open>s.replace(SIMILAR_CHARS, "")\<close>.\<close>

definition SIMILAR_CHARS :: "char set" where
  "SIMILAR_CHARS = set ''il1Lo0O''"

definition remove_similar :: "string \<Rightarrow> string" where
  "remove_similar s = filter (\<lambda>c. c \<notin> SIMILAR_CHARS) s"

record PasswordGenerator =
  this_mode :: gen_mode
  this_length :: jsnum
  this_charset :: string
  this_isSpecial :: bool
  this_options :: PasswordOptions

text \<open>Destructuring with a default: \<^verbatim>\<open>const { f = d } = obj\<close>.\<close>

definition default_to :: "'a \<Rightarrow> 'a option \<Rightarrow> 'a" where
  "default_to d x = (case x of Some v \<Rightarrow> v | None \<Rightarrow> d)"

text \<open>A string in a condition is true when it is present and not empty.\<close>

definition truthy :: "string option \<Rightarrow> bool" where
  "truthy x = (case x of Some s \<Rightarrow> s \<noteq> [] | None \<Rightarrow> False)"

text \<open>
  \<^verbatim>\<open>options.preset ? PRESETS[options.preset] : {}\<close>: the fields the spread of the looked-up
  value adds. A name that is no key of the table yields \<^verbatim>\<open>undefined\<close> or an inherited
  member of \<^verbatim>\<open>Object.prototype\<close>; spreading either adds no field.
\<close>

definition preset_fields :: "PasswordOptions \<Rightarrow> PasswordOptions" where
  "preset_fields opts =
     (if truthy (preset opts)
      then (case PRESETS (the (preset opts)) of Some p \<Rightarrow> p | None \<Rightarrow> no_options)
      else no_options)"

text \<open>
  The base alphabet of random mode. The inner test \<^verbatim>\<open>customCharset.length === 0\<close> is kept
  as the source has it, inside the branch of a non-empty string.
\<close>

definition baseCharset :: "string option \<Rightarrow> bool \<Rightarrow> error + string" where
  "baseCharset custom isSp =
     (if truthy custom then
        (if length (the custom) = 0 then Inl EmptyCharset else Inr (the custom))
      else Inr (if isSp then LOWER @ UPPER @ DIGITS @ SPECIAL else LOWER @ UPPER @ DIGITS))"

text \<open>
  \<^verbatim>\<open>new PasswordGenerator(options)\<close>. The test \<^verbatim>\<open>typeof length !== "number"\<close> is always
  false on a \<open>jsnum\<close> and is left out.
\<close>

definition PasswordGenerator_new :: "PasswordOptions \<Rightarrow> error + PasswordGenerator" where
  "PasswordGenerator_new opts =
     (let options = spread opts (preset_fields opts);
          m = default_to Random (mode options)
      in if m = Random then
           (let len = default_to (Fin 12) (length' options);
                isSp = default_to True (isSpecial options);
                excl = default_to False (excludeSimilar options)
            in if isNaN len \<or> js_lt len (Fin 8) \<or> js_gt len (Fin 128) then Inl InvalidLength
               else (case baseCharset (customCharset options) isSp of
                       Inl e \<Rightarrow> Inl e
                     | Inr base \<Rightarrow>
                         if excl then
                           (if length (remove_similar base) = 0
                            then Inl EmptyCharsetAfterExclusion
                            else Inr \<lparr>this_mode = m, this_length = Math_floor len,
                                      this_charset = remove_similar base,
                                      this_isSpecial = isSp, this_options = options\<rparr>)
                         else Inr \<lparr>this_mode = m, this_length = Math_floor len,
                                   this_charset = base, this_isSpecial = isSp,
                                   this_options = options\<rparr>))
         else
           (let len = default_to (Fin 5) (length' options)
            in if js_lt len (Fin 3) \<or> js_gt len (Fin 20) then Inl InvalidPassphraseLength
               else Inr \<lparr>this_mode = m, this_length = len, this_charset = [],
                         this_isSpecial = False, this_options = options\<rparr>))"

section \<open>The random source and the uniform draw\<close>

text \<open>
  \<^verbatim>\<open>getRandomValues\<close> is modelled by an infinite stream of bytes: filling an array of
  \<open>n\<close> bytes takes the next \<open>n\<close> bytes of the stream. A computation that draws has one of
  three outcomes: it never returns (\<open>None\<close>), it throws (\<open>Some (Inl e)\<close>), or it
  returns a value and the rest of the stream.
\<close>

type_synonym byte = "8 word"

type_synonym 'a outcome = "(error + 'a \<times> byte stream) option"

definition and_then ::
  "'a outcome \<Rightarrow> ('a \<Rightarrow> byte stream \<Rightarrow> 'b outcome) \<Rightarrow> 'b outcome" where
  "and_then r f =
     (case r of None \<Rightarrow> None | Some (Inl e) \<Rightarrow> Some (Inl e) | Some (Inr (a, s)) \<Rightarrow> f a s)"

text \<open>\<^verbatim>\<open>val << 8\<close>: the operand is taken as a 32-bit integer and the result is signed.\<close>

definition shl8 :: "int \<Rightarrow> int" where
  "shl8 v = sint (push_bit 8 (word_of_int v :: 32 word))"

text \<open>The inner \<^verbatim>\<open>for\<close> loop: \<^verbatim>\<open>val = (val << 8) + byteArray[i]\<close>, from \<^verbatim>\<open>val = 0\<close>.\<close>

definition read_val :: "byte list \<Rightarrow> int" where
  "read_val bs = foldl (\<lambda>val b. shl8 val + uint b) 0 bs"

text \<open>\<^verbatim>\<open>a % b\<close> on integers, \<^verbatim>\<open>b\<close> not zero: the sign is that of \<^verbatim>\<open>a\<close>.\<close>

definition js_rem :: "int \<Rightarrow> int \<Rightarrow> int" where
  "js_rem a b = sgn a * (\<bar>a\<bar> mod \<bar>b\<bar>)"

text \<open>The \<^verbatim>\<open>while (true)\<close> loop of \<^verbatim>\<open>getRandomInt\<close>; it has no iteration bound.\<close>

partial_function (option) getRandomInt_loop ::
  "int \<Rightarrow> int \<Rightarrow> nat \<Rightarrow> int \<Rightarrow> byte stream \<Rightarrow> (int \<times> byte stream) option" where
  "getRandomInt_loop mn range' bytesNeeded maxValue s =
     (let val = read_val (stake bytesNeeded s) in
      if val < maxValue - js_rem maxValue range'
      then Some (mn + js_rem val range', sdrop bytesNeeded s)
      else getRandomInt_loop mn range' bytesNeeded maxValue (sdrop bytesNeeded s))"

text \<open>
  \<^verbatim>\<open>getRandomInt(min, max)\<close> for array and string lengths. For \<^verbatim>\<open>range = 0\<close> the byte
  count is \<^verbatim>\<open>-Infinity\<close> and \<^verbatim>\<open>new Uint8Array\<close> throws; for a negative range every
  quantity is \<^verbatim>\<open>NaN\<close>, the array is empty and the test of the loop is never true. For a
  positive range \<^verbatim>\<open>Math.ceil(Math.log2(range))\<close> is \<open>ceillog2\<close>, the logarithm taken
  exactly.
\<close>

definition bitsNeeded :: "nat \<Rightarrow> nat" where
  "bitsNeeded range' = ceillog2 range'"

text \<open>\<^verbatim>\<open>Math.ceil(bitsNeeded / 8)\<close>.\<close>

definition bytesNeeded :: "nat \<Rightarrow> nat" where
  "bytesNeeded range' = nat \<lceil>rat_of_nat (bitsNeeded range') / 8\<rceil>"

definition getRandomInt :: "nat \<Rightarrow> nat \<Rightarrow> byte stream \<Rightarrow> int outcome" where
  "getRandomInt mn mx s =
     (let range' = int mx - int mn in
      if range' < 0 then None
      else if range' = 0 then Some (Inl RangeError)
      else
        (let maxValue = 256 ^ bytesNeeded (nat range')
         in map_option Inr
              (getRandomInt_loop (int mn) range' (bytesNeeded (nat range')) maxValue s)))"

section \<open>Random mode\<close>

text \<open>\<^verbatim>\<open>pick(source)\<close>: one character of the source, \<^verbatim>\<open>undefined\<close> off its end.\<close>

definition pick :: "PasswordGenerator \<Rightarrow> string \<Rightarrow> byte stream \<Rightarrow> char option outcome" where
  "pick g source s =
     (let filtered = (if default_to False (excludeSimilar (this_options g))
                      then remove_similar source else source)
      in if length filtered = 0
         then and_then (getRandomInt 0 (length source) s)
                (\<lambda>i s'. Some (Inr (js_at source i, s')))
         else and_then (getRandomInt 0 (length filtered) s)
                (\<lambda>i s'. Some (Inr (js_at filtered i, s'))))"

text \<open>\<open>k\<close> rounds of \<^verbatim>\<open>requiredChars.push(this.pick(source))\<close>.\<close>

fun push_picks ::
  "nat \<Rightarrow> PasswordGenerator \<Rightarrow> string \<Rightarrow> char option list \<Rightarrow> byte stream
     \<Rightarrow> char option list outcome" where
  "push_picks 0 g source acc s = Some (Inr (acc, s))"
| "push_picks (Suc k) g source acc s =
     and_then (pick g source s) (\<lambda>c s'. push_picks k g source (acc @ [c]) s')"

text \<open>\<^verbatim>\<open>for (let i = start; i < bound; i++) requiredChars.push(this.pick(source))\<close>.\<close>

definition push_loop ::
  "nat \<Rightarrow> jsnum \<Rightarrow> PasswordGenerator \<Rightarrow> string \<Rightarrow> char option list \<Rightarrow> byte stream
     \<Rightarrow> char option list outcome" where
  "push_loop start bound g source acc s =
     (case loop_count start bound of
        None \<Rightarrow> None
      | Some k \<Rightarrow> push_picks k g source acc s)"

text \<open>
  \<^verbatim>\<open>[result[i], result[j]] = [result[j], result[i]]\<close> for an index \<^verbatim>\<open>i\<close> of the array.
  A negative \<^verbatim>\<open>j\<close> names no element: \<^verbatim>\<open>result[i]\<close> becomes \<^verbatim>\<open>undefined\<close>, and the
  property that the second assignment creates is no element of the array (it is not kept
  here). A \<^verbatim>\<open>j\<close> past the end extends the array with holes. Neither case arises in
  \<^verbatim>\<open>shuffle\<close> for an array of at most \<open>2 ^ 24\<close> elements, where \<open>0 \<le> j \<le> i\<close>.
\<close>

definition js_swap :: "'a option list \<Rightarrow> nat \<Rightarrow> int \<Rightarrow> 'a option list" where
  "js_swap xs i j =
     (if 0 \<le> j \<and> nat j < length xs then (xs[i := xs ! nat j])[nat j := xs ! i]
      else if j < 0 then xs[i := None]
      else ((xs @ replicate (nat j + 1 - length xs) None)[i := None])[nat j := xs ! i])"

text \<open>The loop of \<^verbatim>\<open>shuffle\<close>, from index \<^verbatim>\<open>i\<close> down to 1.\<close>

fun shuffle_from :: "nat \<Rightarrow> 'a option list \<Rightarrow> byte stream \<Rightarrow> 'a option list outcome" where
  "shuffle_from 0 xs s = Some (Inr (xs, s))"
| "shuffle_from (Suc i) xs s =
     and_then (getRandomInt 0 (Suc i + 1) s) (\<lambda>j s'. shuffle_from i (js_swap xs (Suc i) j) s')"

definition shuffle :: "'a option list \<Rightarrow> byte stream \<Rightarrow> 'a option list outcome" where
  "shuffle array s = shuffle_from (length array - 1) array s"

text \<open>The effective minimum of one category.\<close>

definition actualMin :: "PasswordOptions \<Rightarrow> jsnum option \<Rightarrow> jsnum" where
  "actualMin options m =
     (if \<not> truthy (customCharset options) \<and> default_to True (isSpecial options)
      then Math_max (default_to (Fin 0) m) (Fin 1)
      else default_to (Fin 0) m)"

text \<open>
  \<^verbatim>\<open>PasswordResult\<close>. The record keeps the password. The field \<^verbatim>\<open>entropy\<close> of a result
  does not depend on the bytes drawn: it is the value of \<^verbatim>\<open>calculateEntropy\<close> or of
  \<^verbatim>\<open>calculatePassphraseEntropy\<close> on the generator, given as \<open>entropy_field\<close> below;
  \<^verbatim>\<open>strength\<close> is a function of that value.
\<close>

record PasswordResult =
  password :: string

definition generateRandom :: "PasswordGenerator \<Rightarrow> byte stream \<Rightarrow> PasswordResult outcome" where
  "generateRandom g s =
     (let options = this_options g;
          actualMinLower = actualMin options (minLower options);
          actualMinUpper = actualMin options (minUpper options);
          actualMinDigit = actualMin options (minDigit options);
          actualMinSpecial = actualMin options (minSpecial options)
      in
      and_then (push_loop 0 actualMinLower g LOWER [] s) (\<lambda>r1 s1.
      and_then (push_loop 0 actualMinUpper g UPPER r1 s1) (\<lambda>r2 s2.
      and_then (push_loop 0 actualMinDigit g DIGITS r2 s2) (\<lambda>r3 s3.
      and_then (push_loop 0 actualMinSpecial g SPECIAL r3 s3) (\<lambda>requiredChars s4.
        if js_gt (Fin (of_nat (length requiredChars))) (this_length g)
        then Some (Inl MinimumsExceedLength)
        else
          and_then (push_loop (length requiredChars) (this_length g) g (this_charset g)
                      requiredChars s4) (\<lambda>filled s5.
          and_then (shuffle filled s5) (\<lambda>shuffled s6.
            Some (Inr (\<lparr>password = join_chars shuffled\<rparr>, s6)))))))))"

section \<open>Passphrase mode\<close>

text \<open>
  \<^verbatim>\<open>DEFAULT_WORDLIST\<close> is imported from \<^verbatim>\<open>./wordlist.js\<close>; it is a parameter \<open>dw\<close> of the
  model. An array is true in a condition, the empty one too.
\<close>

definition getWordlist :: "string list \<Rightarrow> PasswordGenerator \<Rightarrow> string list" where
  "getWordlist dw g = (case wordlist (this_options g) of Some w \<Rightarrow> w | None \<Rightarrow> dw)"

text \<open>\<open>k\<close> rounds of \<^verbatim>\<open>words.push(wordlist[this.getRandomInt(0, wordlist.length)])\<close>.\<close>

fun push_words ::
  "nat \<Rightarrow> string list \<Rightarrow> string option list \<Rightarrow> byte stream \<Rightarrow> string option list outcome" where
  "push_words 0 wl acc s = Some (Inr (acc, s))"
| "push_words (Suc k) wl acc s =
     and_then (getRandomInt 0 (length wl) s)
       (\<lambda>index s'. push_words k wl (acc @ [js_at wl index]) s')"

definition generatePassphrase ::
  "string list \<Rightarrow> PasswordGenerator \<Rightarrow> byte stream \<Rightarrow> PasswordResult outcome" where
  "generatePassphrase dw g s =
     (let sep = (if truthy (separator (this_options g))
                 then the (separator (this_options g)) else ''-'');
          wl = getWordlist dw g
      in case loop_count 0 (this_length g) of
           None \<Rightarrow> None
         | Some k \<Rightarrow>
             and_then (push_words k wl [] s)
               (\<lambda>words s'. Some (Inr (\<lparr>password = js_join sep words\<rparr>, s'))))"

section \<open>The public interface\<close>

definition generateFull ::
  "string list \<Rightarrow> PasswordGenerator \<Rightarrow> byte stream \<Rightarrow> PasswordResult outcome" where
  "generateFull dw g s =
     (if this_mode g = Passphrase then generatePassphrase dw g s else generateRandom g s)"

definition generate :: "string list \<Rightarrow> PasswordGenerator \<Rightarrow> byte stream \<Rightarrow> string outcome" where
  "generate dw g s =
     and_then (generateFull dw g s) (\<lambda>r s'. Some (Inr (password r, s')))"

text \<open>
  The static \<^verbatim>\<open>PasswordGenerator.generateFull(options)\<close>: construction, then sampling.
\<close>

definition static_generateFull ::
  "string list \<Rightarrow> PasswordOptions \<Rightarrow> byte stream \<Rightarrow> PasswordResult outcome" where
  "static_generateFull dw opts s =
     (case PasswordGenerator_new opts of
        Inl e \<Rightarrow> Some (Inl e)
      | Inr g \<Rightarrow> generateFull dw g s)"

section \<open>Entropy\<close>

text \<open>
  The entropy is a double. Its arithmetic is taken exactly here, over the reals, with the
  values \<^verbatim>\<open>NaN\<close> and the infinities beside them; the rounding error of the doubles is not
  modelled.
\<close>

datatype jsreal = Finite real | NotANumber | PlusInfinity | MinusInfinity

fun to_jsreal :: "jsnum \<Rightarrow> jsreal" where
  "to_jsreal (Fin q) = Finite (of_rat q)"
| "to_jsreal NaN = NotANumber"
| "to_jsreal PosInf = PlusInfinity"
| "to_jsreal NegInf = MinusInfinity"

text \<open>\<^verbatim>\<open>Math.log2\<close> of a length: \<^verbatim>\<open>-Infinity\<close> at 0.\<close>

definition Math_log2 :: "nat \<Rightarrow> jsreal" where
  "Math_log2 n = (if n = 0 then MinusInfinity else Finite (log 2 (real n)))"

text \<open>\<^verbatim>\<open>a * b\<close>: zero times an infinity is \<^verbatim>\<open>NaN\<close>.\<close>

fun js_times :: "jsreal \<Rightarrow> jsreal \<Rightarrow> jsreal" where
  "js_times NotANumber b = NotANumber"
| "js_times a NotANumber = NotANumber"
| "js_times (Finite a) (Finite b) = Finite (a * b)"
| "js_times (Finite a) PlusInfinity =
     (if a = 0 then NotANumber else if 0 < a then PlusInfinity else MinusInfinity)"
| "js_times (Finite a) MinusInfinity =
     (if a = 0 then NotANumber else if 0 < a then MinusInfinity else PlusInfinity)"
| "js_times PlusInfinity (Finite b) =
     (if b = 0 then NotANumber else if 0 < b then PlusInfinity else MinusInfinity)"
| "js_times MinusInfinity (Finite b) =
     (if b = 0 then NotANumber else if 0 < b then MinusInfinity else PlusInfinity)"
| "js_times PlusInfinity PlusInfinity = PlusInfinity"
| "js_times PlusInfinity MinusInfinity = MinusInfinity"
| "js_times MinusInfinity PlusInfinity = MinusInfinity"
| "js_times MinusInfinity MinusInfinity = PlusInfinity"

text \<open>
  \<^verbatim>\<open>Math.round(entropy * 100) / 100\<close>: \<^verbatim>\<open>Math.round(x)\<close> is the floor of \<open>x + 1/2\<close>; the
  three operations keep \<^verbatim>\<open>NaN\<close> and the infinities.
\<close>

fun round_to_hundredths :: "jsreal \<Rightarrow> jsreal" where
  "round_to_hundredths (Finite x) = Finite (of_int \<lfloor>x * 100 + 1 / 2\<rfloor> / 100)"
| "round_to_hundredths a = a"

definition calculateEntropy :: "PasswordGenerator \<Rightarrow> jsreal" where
  "calculateEntropy g =
     (let entropy = js_times (to_jsreal (this_length g)) (Math_log2 (length (this_charset g)))
      in round_to_hundredths entropy)"

definition calculatePassphraseEntropy :: "string list \<Rightarrow> PasswordGenerator \<Rightarrow> jsreal" where
  "calculatePassphraseEntropy dw g =
     (let entropy = js_times (to_jsreal (this_length g)) (Math_log2 (length (getWordlist dw g)))
      in round_to_hundredths entropy)"

text \<open>
  The field \<^verbatim>\<open>entropy\<close> of the result of \<^verbatim>\<open>generateFull\<close>: \<^verbatim>\<open>generatePassphrase\<close> stores
  \<^verbatim>\<open>this.calculatePassphraseEntropy()\<close>, \<^verbatim>\<open>generateRandom\<close> stores
  \<^verbatim>\<open>this.calculateEntropy()\<close>.
\<close>

definition entropy_field :: "string list \<Rightarrow> PasswordGenerator \<Rightarrow> jsreal" where
  "entropy_field dw g =
     (if this_mode g = Passphrase then calculatePassphraseEntropy dw g else calculateEntropy g)"

section \<open>Notions used to state the properties\<close>

text \<open>
  How one field of the resolved options relates to the request and to the preset: the
  preset's value where the preset defines the field, the request's value elsewhere.
\<close>

definition field_resolved :: "'a option \<Rightarrow> 'a option \<Rightarrow> 'a option \<Rightarrow> bool" where
  "field_resolved requested preset_value resolved =
     (case preset_value of Some v \<Rightarrow> resolved = Some v | None \<Rightarrow> resolved = requested)"

text \<open>The bytes of a list read as a big-endian unsigned integer.\<close>

definition be_nat :: "byte list \<Rightarrow> nat" where
  "be_nat bs = foldl (\<lambda>v b. 256 * v + unat b) 0 bs"

text \<open>The \<open>k\<close>-th block of \<open>n\<close> bytes of a stream.\<close>

definition chunk :: "nat \<Rightarrow> nat \<Rightarrow> byte stream \<Rightarrow> byte list" where
  "chunk n k s = stake n (sdrop (k * n) s)"

text \<open>
  The result \<open>y\<close> of the rejection loop is that of the first accepted block of the stream.
\<close>

definition first_accepted ::
  "int \<Rightarrow> int \<Rightarrow> nat \<Rightarrow> int \<Rightarrow> byte stream \<Rightarrow> int \<times> byte stream \<Rightarrow> bool" where
  "first_accepted mn r n M s y =
     (\<exists>k. snd y = sdrop (Suc k * n) s \<and> read_val (chunk n k s) < M - js_rem M r
        \<and> fst y = mn + js_rem (read_val (chunk n k s)) r
        \<and> (\<forall>i<k. \<not> read_val (chunk n i s) < M - js_rem M r))"

text \<open>Requests used as examples.\<close>

definition wifi_length_20 :: PasswordOptions where
  "wifi_length_20 = no_options\<lparr>length' := Some (Fin 20), preset := Some ''wifi''\<rparr>"

definition bogus_preset :: PasswordOptions where
  "bogus_preset = no_options\<lparr>preset := Some ''bogus''\<rparr>"

definition nan_passphrase :: PasswordOptions where
  "nan_passphrase = no_options\<lparr>mode := Some Passphrase, length' := Some NaN\<rparr>"

definition empty_wordlist :: PasswordOptions where
  "empty_wordlist = no_options\<lparr>mode := Some Passphrase, wordlist := Some []\<rparr>"

definition empty_separator :: PasswordOptions where
  "empty_separator = no_options\<lparr>mode := Some Passphrase, length' := Some (Fin 3),
     separator := Some [], wordlist := Some [''ab'', ''cd'']\<rparr>"

text \<open>A value that some run of \<^verbatim>\<open>pick(source)\<close> returns.\<close>

definition picked :: "PasswordGenerator \<Rightarrow> string \<Rightarrow> char option \<Rightarrow> bool" where
  "picked g source c = (\<exists>s s'. pick g source s = Some (Inr (c, s')))"

text \<open>The number of characters of a password that belong to a category.\<close>

definition count_in :: "string \<Rightarrow> string \<Rightarrow> nat" where
  "count_in category pw = length (filter (\<lambda>c. c \<in> set category) pw)"

text \<open>The password has at least \<open>m\<close> characters of the category, \<open>m\<close> a number.\<close>

definition meets_minimum :: "string \<Rightarrow> jsnum \<Rightarrow> string \<Rightarrow> bool" where
  "meets_minimum category m pw = js_ge (Fin (of_nat (count_in category pw))) m"

definition length_8 :: PasswordOptions where
  "length_8 = no_options\<lparr>length' := Some (Fin 8)\<rparr>"

definition length_8_no_similar :: PasswordOptions where
  "length_8_no_similar = no_options\<lparr>length' := Some (Fin 8), excludeSimilar := Some True\<rparr>"

definition length_8_minLower_NaN :: PasswordOptions where
  "length_8_minLower_NaN = no_options\<lparr>length' := Some (Fin 8), minLower := Some NaN\<rparr>"

definition length_8_minimums_3 :: PasswordOptions where
  "length_8_minimums_3 = no_options\<lparr>length' := Some (Fin 8), minLower := Some (Fin 3),
     minUpper := Some (Fin 3), minDigit := Some (Fin 3), minSpecial := Some (Fin 3)\<rparr>"

text \<open>
  The number of guaranteed characters that \<^verbatim>\<open>generateRandom\<close> draws before it compares
  their number with the length; \<open>None\<close> when one of the four loops does not end.
\<close>

definition required_count :: "PasswordGenerator \<Rightarrow> nat option" where
  "required_count g =
     (let options = this_options g in
      case (loop_count 0 (actualMin options (minLower options)),
            loop_count 0 (actualMin options (minUpper options)),
            loop_count 0 (actualMin options (minDigit options)),
            loop_count 0 (actualMin options (minSpecial options))) of
        (Some a, Some b, Some c, Some d) \<Rightarrow> Some (a + b + c + d)
      | _ \<Rightarrow> None)"

definition length_7 :: PasswordOptions where
  "length_7 = no_options\<lparr>length' := Some (Fin 7)\<rparr>"

text \<open>A stream all of whose bytes have the top bit clear.\<close>

definition low_bytes :: "byte stream \<Rightarrow> bool" where
  "low_bytes s = (\<forall>b\<in>sset s. unat b < 128)"

text \<open>
  The entropy as the specification words it: a count times the binary logarithm of a
  size, rounded to two decimal places.
\<close>

definition rounded_2 :: "real \<Rightarrow> real" where
  "rounded_2 x = of_int (round (x * 100)) / 100"

definition spec_entropy :: "nat \<Rightarrow> nat \<Rightarrow> real" where
  "spec_entropy n m = rounded_2 (real n * log 2 (real m))"



definition fractional_passphrase :: PasswordOptions where
  "fractional_passphrase = no_options\<lparr>mode := Some Passphrase, length' := Some (Fin (7 / 2)),
     wordlist := Some [''ab'', ''cd'', ''ef'', ''gh'']\<rparr>"

definition length_8_minDigit_2 :: PasswordOptions where
  "length_8_minDigit_2 = no_options\<lparr>length' := Some (Fin 8), minDigit := Some (Fin 2)\<rparr>"

section \<open>Evaluation and basic facts\<close>

lemmas ctor_defs = PasswordGenerator_new_def preset_fields_def PRESETS_def spread_def later_def
  no_options_def truthy_def default_to_def baseCharset_def isNaN_def js_gt_def Let_def

lemmas alphabet_defs = LOWER_def UPPER_def DIGITS_def SPECIAL_def remove_similar_def
  SIMILAR_CHARS_def

lemma options_of_new:
  "PasswordGenerator_new opts = Inr g \<Longrightarrow> this_options g = spread opts (preset_fields opts)"
  by (auto simp: PasswordGenerator_new_def Let_def split: if_splits sum.splits)

lemma PRESETS_Some_nonempty: "PRESETS name = Some p \<Longrightarrow> name \<noteq> []"
  by (auto simp: PRESETS_def split: if_splits)

lemma later_resolved: "field_resolved a b (later a b)"
  by (simp add: field_resolved_def later_def split: option.splits)

lemma spread_no_options: "spread opts no_options = opts"
  by (simp add: spread_def no_options_def later_def)

lemma never_UnknownPreset: "PasswordGenerator_new opts \<noteq> Inl UnknownPreset"
  by (auto simp: PasswordGenerator_new_def Let_def baseCharset_def split: if_splits sum.splits)

section \<open>Presets\<close>

text \<open>
  C1, as the claim states it, fails: a request for the preset \<open>wifi\<close> that sets
  \<open>length\<close> to 20 is resolved to the length 16 of the preset, not to the 20 of the
  request.
\<close>

theorem explicit_length_lost_to_preset:
  "map_sum id this_length (PasswordGenerator_new wifi_length_20) = Inr (Fin 16)
   \<and> length' wifi_length_20 = Some (Fin 20)"
  by (simp add: wifi_length_20_def ctor_defs alphabet_defs)

text \<open>
  C1, amended: for a request that names a preset of the table, every field that the preset
  defines has the preset's value in the resolved options, whatever the request gives for
  it; the request's value is used for the fields the preset does not define.
\<close>

theorem preset_fields_win:
  assumes "PRESETS name = Some p" and "preset opts = Some name"
    and "PasswordGenerator_new opts = Inr g"
  shows "field_resolved (mode opts) (mode p) (mode (this_options g))
       \<and> field_resolved (length' opts) (length' p) (length' (this_options g))
       \<and> field_resolved (isSpecial opts) (isSpecial p) (isSpecial (this_options g))
       \<and> field_resolved (customCharset opts) (customCharset p) (customCharset (this_options g))
       \<and> field_resolved (excludeSimilar opts) (excludeSimilar p) (excludeSimilar (this_options g))
       \<and> field_resolved (minLower opts) (minLower p) (minLower (this_options g))
       \<and> field_resolved (minUpper opts) (minUpper p) (minUpper (this_options g))
       \<and> field_resolved (minDigit opts) (minDigit p) (minDigit (this_options g))
       \<and> field_resolved (minSpecial opts) (minSpecial p) (minSpecial (this_options g))
       \<and> field_resolved (separator opts) (separator p) (separator (this_options g))
       \<and> field_resolved (wordlist opts) (wordlist p) (wordlist (this_options g))"
proof -
  have "preset_fields opts = p"
    using assms(1,2) PRESETS_Some_nonempty [OF assms(1)]
    by (simp add: preset_fields_def truthy_def)
  then have "this_options g = spread opts p"
    using options_of_new [OF assms(3)] by simp
  then show ?thesis by (simp add: spread_def later_resolved)
qed

theorem preset_fields_win_witness:
  "PRESETS ''wifi'' = Some (no_options\<lparr>length' := Some (Fin 16), isSpecial := Some False,
                                      excludeSimilar := Some True\<rparr>)
   \<and> preset wifi_length_20 = Some ''wifi''
   \<and> PasswordGenerator_new wifi_length_20 =
       Inr \<lparr>this_mode = Random, this_length = Fin 16,
            this_charset = remove_similar (LOWER @ UPPER @ DIGITS), this_isSpecial = False,
            this_options = wifi_length_20\<lparr>length' := Some (Fin 16), isSpecial := Some False,
                                         excludeSimilar := Some True\<rparr>\<rparr>
   \<and> field_resolved (Some (Fin 20)) (Some (Fin 16))
        (length' (wifi_length_20\<lparr>length' := Some (Fin 16), isSpecial := Some False,
                                 excludeSimilar := Some True\<rparr>))"
proof -
  have p: "PRESETS ''wifi'' = Some (no_options\<lparr>length' := Some (Fin 16),
             isSpecial := Some False, excludeSimilar := Some True\<rparr>)"
    by (simp add: PRESETS_def)
  have n: "preset wifi_length_20 = Some ''wifi''"
    by (simp add: wifi_length_20_def no_options_def)
  have g: "PasswordGenerator_new wifi_length_20 =
       Inr \<lparr>this_mode = Random, this_length = Fin 16,
            this_charset = remove_similar (LOWER @ UPPER @ DIGITS), this_isSpecial = False,
            this_options = wifi_length_20\<lparr>length' := Some (Fin 16), isSpecial := Some False,
                                         excludeSimilar := Some True\<rparr>\<rparr>"
    by (simp add: wifi_length_20_def ctor_defs alphabet_defs)
  show ?thesis
    using preset_fields_win [OF p n g] p n g
    by (simp add: wifi_length_20_def no_options_def)
qed

text \<open>
  C8, as the claim states it, fails: the constructor accepts a request whose preset is not
  in the table and resolves it to the default length 12.
\<close>

theorem bogus_preset_accepted:
  "map_sum id this_length (PasswordGenerator_new bogus_preset) = Inr (Fin 12)"
  by (simp add: bogus_preset_def ctor_defs)

text \<open>
  C8, amended: for a request whose preset name is not in the table, the constructor does
  not fail with \<open>UnknownPreset\<close>; it ignores the name: its result is the one for the same
  request without a preset, the stored options apart, which keep the name.
\<close>

theorem unknown_preset_ignored:
  assumes "PRESETS name = None" and "preset opts = Some name"
  shows "PasswordGenerator_new opts \<noteq> Inl UnknownPreset
       \<and> PasswordGenerator_new opts =
           map_sum id (this_options_update (\<lambda>_. opts))
             (PasswordGenerator_new (opts\<lparr>preset := None\<rparr>))"
proof -
  have pf: "preset_fields opts = no_options" "preset_fields (opts\<lparr>preset := None\<rparr>) = no_options"
    using assms by (simp_all add: preset_fields_def truthy_def)
  have "PasswordGenerator_new opts =
           map_sum id (this_options_update (\<lambda>_. opts))
             (PasswordGenerator_new (opts\<lparr>preset := None\<rparr>))"
    by (simp add: PasswordGenerator_new_def pf spread_no_options Let_def split: sum.splits)
  then show ?thesis using never_UnknownPreset [of opts] by blast
qed

theorem unknown_preset_ignored_witness:
  "PRESETS ''bogus'' = None \<and> preset bogus_preset = Some ''bogus''
   \<and> PasswordGenerator_new bogus_preset \<noteq> Inl UnknownPreset
   \<and> PasswordGenerator_new bogus_preset =
       map_sum id (this_options_update (\<lambda>_. bogus_preset))
         (PasswordGenerator_new (bogus_preset\<lparr>preset := None\<rparr>))"
proof -
  have a: "PRESETS ''bogus'' = None" by (simp add: PRESETS_def)
  have b: "preset bogus_preset = Some ''bogus''" by (simp add: bogus_preset_def no_options_def)
  show ?thesis using unknown_preset_ignored [OF a b] a b by blast
qed

section \<open>The uniform draw\<close>

subsection \<open>Reading bytes\<close>

lemma ceil_div8: "\<lceil>rat_of_nat b / 8\<rceil> = (int b + 7) div 8"
proof -
  define q where "q = (int b + 7) div 8"
  have 1: "8 * q \<le> int b + 7" and 2: "int b \<le> 8 * q" unfolding q_def by presburger+
  have a: "rat_of_int (int b) \<le> rat_of_int (8 * q)" using 2 by (simp only: of_int_le_iff)
  have "rat_of_int (8 * q) < rat_of_int (int b + 8)" using 1 by (simp only: of_int_less_iff)
  then have b: "rat_of_int (8 * q) < rat_of_int (int b) + 8" by simp
  have "\<lceil>rat_of_nat b / 8\<rceil> = q"
    by (rule ceiling_unique) (use a b in \<open>simp_all add: field_simps\<close>)
  then show ?thesis by (simp add: q_def)
qed

lemma bytesNeeded_eq: "bytesNeeded r = (ceillog2 r + 7) div 8"
  by (simp add: bytesNeeded_def bitsNeeded_def ceil_div8 nat_div_distrib nat_add_distrib)

lemma bytesNeeded_le_iff: "0 < r \<Longrightarrow> bytesNeeded r \<le> m \<longleftrightarrow> r \<le> 256 ^ m"
proof -
  assume r: "0 < r"
  have "bytesNeeded r \<le> m \<longleftrightarrow> ceillog2 r \<le> 8 * m"
    unfolding bytesNeeded_eq by linarith
  also have "\<dots> \<longleftrightarrow> r \<le> 2 ^ (8 * m)" using r by (rule ceillog2_le_iff)
  also have "(2::nat) ^ (8 * m) = 256 ^ m" by (simp add: power_mult)
  finally show ?thesis .
qed

lemma bytesNeeded_minimal:
  "0 < r \<Longrightarrow> r \<le> 256 ^ bytesNeeded r \<and> (\<forall>m. r \<le> 256 ^ m \<longrightarrow> bytesNeeded r \<le> m)"
  using bytesNeeded_le_iff [of r] by blast

lemma shl8_small: "0 \<le> v \<Longrightarrow> v < 2 ^ 23 \<Longrightarrow> shl8 v = v * 256"
proof -
  assume a: "0 \<le> v" "v < 2 ^ 23"
  have "push_bit 8 (word_of_int v :: 32 word) = word_of_int (v * 256)"
    by (simp add: push_bit_eq_mult)
  then have "shl8 v = signed_take_bit 31 (v * 256)"
    by (simp only: shl8_def signed_of_int) simp
  also have "\<dots> = v * 256"
    by (rule signed_take_bit_int_eq_self) (use a in simp_all)
  finally show ?thesis .
qed

lemma be_nat_snoc: "be_nat (bs @ [b]) = 256 * be_nat bs + unat b"
  by (simp add: be_nat_def)

lemma read_val_snoc: "read_val (bs @ [b]) = shl8 (read_val bs) + uint b"
  by (simp add: read_val_def)

lemma be_nat_bound: "be_nat bs < 256 ^ length bs"
proof (induction bs rule: rev_induct)
  case Nil
  show ?case by (simp add: be_nat_def)
next
  case (snoc b bs)
  have "unat b < 256" using unsigned_less [of b, where 'a = nat] by simp
  moreover have "be_nat bs + 1 \<le> 256 ^ length bs" using snoc.IH by simp
  then have "256 * (be_nat bs + 1) \<le> 256 * 256 ^ length bs" by (rule mult_le_mono2)
  ultimately show ?case by (simp add: be_nat_snoc)
qed

lemma read_val_be: "length bs \<le> 3 \<Longrightarrow> read_val bs = int (be_nat bs)"
proof (induction bs rule: rev_induct)
  case Nil
  show ?case by (simp add: read_val_def be_nat_def)
next
  case (snoc b bs)
  then have len: "length bs \<le> 2" and IH: "read_val bs = int (be_nat bs)" by simp_all
  have "be_nat bs < 256 ^ length bs" by (rule be_nat_bound)
  also have "\<dots> \<le> (256::nat) ^ 2" using len by (intro power_increasing) simp_all
  finally have "int (be_nat bs) < 2 ^ 23" by simp
  then have "shl8 (int (be_nat bs)) = int (be_nat bs) * 256"
    by (intro shl8_small) simp_all
  then show ?case by (simp add: read_val_snoc be_nat_snoc IH)
qed

lemma js_rem_nonneg: "0 \<le> a \<Longrightarrow> 0 < b \<Longrightarrow> js_rem a b = a mod b"
  by (cases "a = 0") (simp_all add: js_rem_def)

subsection \<open>The rejection loop\<close>

lemma chunk_0: "chunk n 0 s = stake n s" by (simp add: chunk_def)

lemma chunk_Suc: "chunk n (Suc k) s = chunk n k (sdrop n s)"
  by (simp add: chunk_def add.commute)

lemma length_chunk: "length (chunk n k s) = n" by (simp add: chunk_def)

lemma first_accepted_now:
  "read_val (stake n s) < M - js_rem M r \<Longrightarrow>
   first_accepted mn r n M s (mn + js_rem (read_val (stake n s)) r, sdrop n s)"
  unfolding first_accepted_def by (intro exI [of _ 0]) (simp add: chunk_0)

lemma first_accepted_later:
  assumes rej: "\<not> read_val (stake n s) < M - js_rem M r"
    and rest: "first_accepted mn r n M (sdrop n s) y"
  shows "first_accepted mn r n M s y"
proof -
  from rest obtain k where k:
      "snd y = sdrop (Suc k * n) (sdrop n s)"
      "read_val (chunk n k (sdrop n s)) < M - js_rem M r"
      "fst y = mn + js_rem (read_val (chunk n k (sdrop n s))) r"
      "\<forall>i<k. \<not> read_val (chunk n i (sdrop n s)) < M - js_rem M r"
    unfolding first_accepted_def by blast
  have "\<not> read_val (chunk n i s) < M - js_rem M r" if "i < Suc k" for i
    using that rej k(4) by (cases i) (simp_all add: chunk_0 chunk_Suc)
  moreover have "sdrop (Suc k * n) (sdrop n s) = sdrop (Suc (Suc k) * n) s"
    by (simp add: add.commute)
  ultimately show ?thesis
    unfolding first_accepted_def using k(1-3) by (intro exI [of _ "Suc k"]) (simp add: chunk_Suc)
qed

lemma loop_sound:
  assumes "getRandomInt_loop mn r n M s = Some y"
  shows "first_accepted mn r n M s y"
proof (rule getRandomInt_loop.raw_induct [where P = first_accepted, OF _ assms])
  fix loop :: "int \<Rightarrow> int \<Rightarrow> nat \<Rightarrow> int \<Rightarrow> byte stream \<Rightarrow> (int \<times> byte stream) option"
  fix mn r n M s y
  assume IH: "\<And>mn r n M s y. loop mn r n M s = Some y \<Longrightarrow> first_accepted mn r n M s y"
  assume step: "(let val = read_val (stake n s) in
      if val < M - js_rem M r then Some (mn + js_rem val r, sdrop n s)
      else loop mn r n M (sdrop n s)) = Some y"
  show "first_accepted mn r n M s y"
  proof (cases "read_val (stake n s) < M - js_rem M r")
    case True
    with step have "y = (mn + js_rem (read_val (stake n s)) r, sdrop n s)" by (simp add: Let_def)
    with True show ?thesis by (simp add: first_accepted_now)
  next
    case False
    with step have "loop mn r n M (sdrop n s) = Some y" by (simp add: Let_def)
    then have "first_accepted mn r n M (sdrop n s) y" by (rule IH)
    with False show ?thesis by (rule first_accepted_later)
  qed
qed

lemma loop_complete:
  "read_val (chunk n k s) < M - js_rem M r \<Longrightarrow>
   (\<forall>i<k. \<not> read_val (chunk n i s) < M - js_rem M r) \<Longrightarrow>
   getRandomInt_loop mn r n M s =
     Some (mn + js_rem (read_val (chunk n k s)) r, sdrop (Suc k * n) s)"
proof (induction k arbitrary: s)
  case 0
  then show ?case by (subst getRandomInt_loop.simps) (simp add: chunk_0)
next
  case (Suc k)
  from Suc.prems(2) have rej: "\<not> read_val (stake n s) < M - js_rem M r"
    by (auto simp: chunk_0 dest: spec [of _ 0])
  have "getRandomInt_loop mn r n M (sdrop n s) =
     Some (mn + js_rem (read_val (chunk n k (sdrop n s))) r, sdrop (Suc k * n) (sdrop n s))"
  proof (rule Suc.IH)
    show "read_val (chunk n k (sdrop n s)) < M - js_rem M r"
      using Suc.prems(1) by (simp add: chunk_Suc)
    show "\<forall>i<k. \<not> read_val (chunk n i (sdrop n s)) < M - js_rem M r"
      using Suc.prems(2) by (auto simp: chunk_Suc [symmetric])
  qed
  with rej show ?case
    by (subst getRandomInt_loop.simps) (simp add: chunk_Suc add.commute)
qed

lemma loop_None_iff:
  "getRandomInt_loop mn r n M s = None \<longleftrightarrow>
     (\<forall>k. \<not> read_val (chunk n k s) < M - js_rem M r)"
proof
  assume none: "getRandomInt_loop mn r n M s = None"
  show "\<forall>k. \<not> read_val (chunk n k s) < M - js_rem M r"
  proof (rule ccontr)
    assume "\<not> ?thesis"
    then have ex: "\<exists>k. read_val (chunk n k s) < M - js_rem M r" by blast
    define k where "k = (LEAST k. read_val (chunk n k s) < M - js_rem M r)"
    have "read_val (chunk n k s) < M - js_rem M r"
      unfolding k_def using ex by (rule LeastI_ex)
    moreover have "\<forall>i<k. \<not> read_val (chunk n i s) < M - js_rem M r"
      unfolding k_def using not_less_Least by blast
    ultimately show False using loop_complete [of n k s M r mn] none by simp
  qed
next
  assume "\<forall>k. \<not> read_val (chunk n k s) < M - js_rem M r"
  then show "getRandomInt_loop mn r n M s = None"
    using loop_sound [of mn r n M s]
    by (cases "getRandomInt_loop mn r n M s") (auto simp: first_accepted_def)
qed

subsection \<open>The draw on ranges of at most three bytes\<close>

lemma bytesNeeded_small: "0 < r \<Longrightarrow> r \<le> 2 ^ 24 \<Longrightarrow> bytesNeeded r \<le> 3"
  by (simp add: bytesNeeded_le_iff)

lemma getRandomInt_unfold:
  assumes "0 < r"
  shows "getRandomInt 0 r s =
     map_option Inr (getRandomInt_loop 0 (int r) (bytesNeeded r) (256 ^ bytesNeeded r) s)"
  using assms by (simp add: getRandomInt_def Let_def)

lemma getRandomInt_zero: "getRandomInt 0 0 s = Some (Inl RangeError)"
  by (simp add: getRandomInt_def)

lemma getRandomInt_no_error: "0 < r \<Longrightarrow> getRandomInt 0 r s \<noteq> Some (Inl e)"
  by (simp add: getRandomInt_unfold map_option_case split: option.splits)

lemma getRandomInt_range:
  assumes res: "getRandomInt 0 r s = Some (Inr (v, s'))" and small: "r \<le> 2 ^ 24"
  shows "0 \<le> v \<and> v < int r"
proof -
  have r: "0 < r" using res by (cases "r = 0") (simp_all add: getRandomInt_zero)
  let ?n = "bytesNeeded r"
  from res r have "getRandomInt_loop 0 (int r) ?n (256 ^ ?n) s = Some (v, s')"
    by (auto simp: getRandomInt_unfold)
  then have "first_accepted 0 (int r) ?n (256 ^ ?n) s (v, s')" by (rule loop_sound)
  then obtain k where v: "v = 0 + js_rem (read_val (chunk ?n k s)) (int r)"
    unfolding first_accepted_def by auto
  have "length (chunk ?n k s) \<le> 3" using bytesNeeded_small [OF r small] by (simp add: length_chunk)
  then have "read_val (chunk ?n k s) = int (be_nat (chunk ?n k s))" by (rule read_val_be)
  then have "v = int (be_nat (chunk ?n k s)) mod int r"
    using v r by (simp add: js_rem_nonneg)
  then show ?thesis using r by simp
qed

subsection \<open>Evaluating a draw\<close>

lemma getRandomInt_accept:
  assumes "0 < r"
    and "read_val (stake (bytesNeeded r) s)
           < 256 ^ bytesNeeded r - js_rem (256 ^ bytesNeeded r) (int r)"
  shows "getRandomInt 0 r s =
     Some (Inr (js_rem (read_val (stake (bytesNeeded r) s)) (int r), sdrop (bytesNeeded r) s))"
  using assms loop_complete [of "bytesNeeded r" 0 s "256 ^ bytesNeeded r" "int r" 0]
  by (simp add: getRandomInt_unfold chunk_0)

lemma getRandomInt_reject:
  assumes "0 < r"
    and "\<not> read_val (stake (bytesNeeded r) s)
           < 256 ^ bytesNeeded r - js_rem (256 ^ bytesNeeded r) (int r)"
  shows "getRandomInt 0 r s = getRandomInt 0 r (sdrop (bytesNeeded r) s)"
  using assms
  by (simp add: getRandomInt_unfold getRandomInt_loop.simps [of _ _ _ _ s])

lemma stake_sconst: "stake n (sconst b) = replicate n b"
  by (simp add: map_replicate_const)

lemma sdrop_sconst: "sdrop n (sconst b) = sconst b"
  by simp

lemma stake_numeral: "stake (numeral k) s = shd s # stake (pred_numeral k) (stl s)"
  by (simp add: numeral_eq_Suc)

lemma sdrop_numeral: "sdrop (numeral k) s = sdrop (pred_numeral k) (stl s)"
  by (simp add: numeral_eq_Suc)

lemma bytesNeeded_one: "bytesNeeded (Suc 0) = 0"
  by (simp add: bytesNeeded_eq)

lemma bytesNeeded_byte: "1 < r \<Longrightarrow> r \<le> 256 \<Longrightarrow> bytesNeeded r = 1"
proof -
  assume r: "1 < r" "r \<le> 256"
  then have "bytesNeeded r \<le> 1" by (simp add: bytesNeeded_le_iff)
  moreover have "\<not> bytesNeeded r \<le> 0" using r bytesNeeded_le_iff [of r 0] by simp
  ultimately show ?thesis by simp
qed

lemma read_val_single: "read_val [b] = uint b"
  by (simp add: read_val_def shl8_def)

lemma getRandomInt_sconst:
  assumes "0 < r" and "r \<le> 256" and "unat b < 256 - 256 mod r"
  shows "getRandomInt 0 r (sconst b) = Some (Inr (int (unat b mod r), sconst b))"
proof (cases "r = 1")
  case True
  then show ?thesis
    using getRandomInt_accept [of r "sconst b"]
    by (simp add: bytesNeeded_one js_rem_def read_val_def)
next
  case False
  with assms have n: "bytesNeeded r = 1" by (simp add: bytesNeeded_byte)
  have "int (unat b) < int (256 - 256 mod r)" using assms(3) by (simp only: of_nat_less_iff)
  also have "int (256 - 256 mod r) = 256 - 256 mod int r"
    by (simp add: of_nat_diff zmod_int)
  finally have "uint b < 256 - 256 mod int r" by simp
  then have "read_val (stake (bytesNeeded r) (sconst b))
           < 256 ^ bytesNeeded r - js_rem (256 ^ bytesNeeded r) (int r)"
    using assms(1) by (simp add: n read_val_single js_rem_nonneg)
  from getRandomInt_accept [OF assms(1) this] show ?thesis
    using assms(1) by (simp add: n read_val_single js_rem_nonneg zmod_int)
qed

text \<open>
  C3 fails on the code for a range above \<open>2 ^ 24\<close>, where four bytes are read:
  \<^verbatim>\<open>val << 8\<close> is a shift of a signed 32-bit integer, so the bytes 128, 0, 0, 0 are read
  as \<open>- 2 ^ 31\<close>, the value passes the test of the loop, and the draw returns a negative
  number instead of one in \<open>[0, r)\<close>.
\<close>

theorem draw_negative_on_four_bytes:
  "getRandomInt 0 16777217 (128 ## sconst 0) = Some (Inr (- 16777089, sconst 0))"
proof -
  have n: "bytesNeeded 16777217 = 4"
    by (simp add: bytesNeeded_eq ceillog2_code ceillog2_aux.simps)
  have st: "stake 4 (128 ## sconst 0) = [128, 0, 0, 0 :: byte]"
    by (simp add: stake_numeral map_replicate_const eval_nat_numeral)
  have sd: "sdrop 4 (128 ## sconst (0 :: byte)) = sconst 0"
    by (simp add: sdrop_numeral)
  have rv: "read_val [128, 0, 0, 0] = - 2147483648"
    by (simp add: read_val_def shl8_def)
  have "read_val (stake (bytesNeeded 16777217) (128 ## sconst 0))
           < 256 ^ bytesNeeded 16777217 - js_rem (256 ^ bytesNeeded 16777217) (int 16777217)"
    by (simp add: n st rv js_rem_def)
  from getRandomInt_accept [OF _ this] show ?thesis
    by (simp add: n st sd rv js_rem_def)
qed

subsection \<open>The draw on ranges of at most three bytes, step by step\<close>

text \<open>
  For a range of at most \<open>2 ^ 24\<close> the shift does not overflow. Then the draw reads the
  least number of bytes with \<open>r \<le> 256 ^ n\<close> (\<open>bytesNeeded_minimal\<close>) as a big-endian
  unsigned integer \<open>v\<close>, returns \<open>v mod r\<close> when \<open>v < (256 ^ n div r) * r\<close> and draws
  again otherwise; each value below \<open>r\<close> comes from \<open>256 ^ n div r\<close> accepted integers.
\<close>

lemma limit_eq: "0 < r \<Longrightarrow> (256::int) ^ n - js_rem (256 ^ n) (int r) = int ((256 ^ n div r) * r)"
proof -
  assume r: "0 < r"
  have "int ((256 ^ n div r) * r) = int (256 ^ n - 256 ^ n mod r)"
    by (simp add: minus_mod_eq_div_mult)
  also have "\<dots> = 256 ^ n - (256 ^ n) mod int r"
    by (simp add: of_nat_diff zmod_int)
  finally show ?thesis using r by (simp add: js_rem_nonneg)
qed

lemma getRandomInt_step:
  assumes r: "0 < r" and small: "r \<le> 2 ^ 24"
  shows "getRandomInt 0 r s =
     (if be_nat (stake (bytesNeeded r) s) < (256 ^ bytesNeeded r div r) * r
      then Some (Inr (int (be_nat (stake (bytesNeeded r) s) mod r), sdrop (bytesNeeded r) s))
      else getRandomInt 0 r (sdrop (bytesNeeded r) s))"
proof -
  let ?n = "bytesNeeded r"
  have "length (stake ?n s) \<le> 3" using bytesNeeded_small [OF r small] by simp
  then have rv: "read_val (stake ?n s) = int (be_nat (stake ?n s))" by (rule read_val_be)
  have test: "read_val (stake ?n s) < 256 ^ ?n - js_rem (256 ^ ?n) (int r)
     \<longleftrightarrow> be_nat (stake ?n s) < (256 ^ ?n div r) * r"
    unfolding rv limit_eq [OF r] by (simp only: of_nat_less_iff)
  show ?thesis
  proof (cases "be_nat (stake ?n s) < (256 ^ ?n div r) * r")
    case True
    then show ?thesis
      using getRandomInt_accept [OF r, of s] test r by (simp add: rv js_rem_nonneg zmod_int)
  next
    case False
    then show ?thesis
      using getRandomInt_reject [OF r, of s] test by simp
  qed
qed

lemma accepted_values_uniform:
  fixes r :: nat
  assumes "k < r"
  shows "card {v. v < (M div r) * r \<and> v mod r = k} = M div r"
proof -
  have "{v. v < (M div r) * r \<and> v mod r = k} = (\<lambda>i. i * r + k) ` {..<M div r}"
  proof (intro set_eqI iffI)
    fix v assume "v \<in> {v. v < (M div r) * r \<and> v mod r = k}"
    then have v: "v < (M div r) * r" "v mod r = k" by simp_all
    have "v div r < M div r" using v(1) assms by (simp add: less_mult_imp_div_less)
    moreover have "v = (v div r) * r + k" using v(2) by (metis div_mult_mod_eq)
    ultimately show "v \<in> (\<lambda>i. i * r + k) ` {..<M div r}" by blast
  next
    fix v assume "v \<in> (\<lambda>i. i * r + k) ` {..<M div r}"
    then obtain i where i: "i < M div r" "v = i * r + k" by blast
    have "i * r + k < (i + 1) * r" using assms by simp
    also have "\<dots> \<le> (M div r) * r" using i(1) by (intro mult_le_mono1) simp
    finally show "v \<in> {v. v < (M div r) * r \<and> v mod r = k}" using i(2) assms by simp
  qed
  moreover have "inj_on (\<lambda>i. i * r + k) {..<M div r}"
    using assms by (auto simp: inj_on_def)
  ultimately show ?thesis by (simp add: card_image)
qed

section \<open>Lengths\<close>

lemma mode_preset_fields: "mode (preset_fields opts) = None"
  by (simp add: preset_fields_def PRESETS_def no_options_def split: option.splits)

lemma separator_preset_fields: "separator (preset_fields opts) = None"
  by (simp add: preset_fields_def PRESETS_def no_options_def split: option.splits)

lemma wordlist_preset_fields: "wordlist (preset_fields opts) = None"
  by (simp add: preset_fields_def PRESETS_def no_options_def split: option.splits)

lemma customCharset_preset_fields: "customCharset (preset_fields opts) = None"
  by (simp add: preset_fields_def PRESETS_def no_options_def split: option.splits)

lemma resolved_unset_fields:
  "mode (spread opts (preset_fields opts)) = mode opts"
  "separator (spread opts (preset_fields opts)) = separator opts"
  "wordlist (spread opts (preset_fields opts)) = wordlist opts"
  "customCharset (spread opts (preset_fields opts)) = customCharset opts"
  by (simp_all add: spread_def later_def mode_preset_fields separator_preset_fields
      wordlist_preset_fields customCharset_preset_fields)

lemma mode_of_new:
  "PasswordGenerator_new opts = Inr g \<Longrightarrow> this_mode g = default_to Random (mode opts)"
  by (auto simp: PasswordGenerator_new_def Let_def resolved_unset_fields
      split: if_splits sum.splits)

lemma push_words_0: "push_words 0 wl acc s = Some (Inr (acc, s))"
  by simp

text \<open>
  C7 fails on the code for the word count \<^verbatim>\<open>NaN\<close>: both comparisons of the passphrase
  branch are false on it, the constructor returns a generator of length \<^verbatim>\<open>NaN\<close>, and
  sampling returns the empty passphrase.
\<close>

theorem passphrase_length_NaN_accepted:
  "PasswordGenerator_new nan_passphrase =
     Inr \<lparr>this_mode = Passphrase, this_length = NaN, this_charset = [],
          this_isSpecial = False, this_options = nan_passphrase\<rparr>
   \<and> static_generateFull dw nan_passphrase s = Some (Inr (\<lparr>password = []\<rparr>, s))"
proof -
  have g: "PasswordGenerator_new nan_passphrase =
     Inr \<lparr>this_mode = Passphrase, this_length = NaN, this_charset = [],
          this_isSpecial = False, this_options = nan_passphrase\<rparr>"
    by (simp add: nan_passphrase_def ctor_defs)
  show ?thesis
    by (simp add: g static_generateFull_def generateFull_def generatePassphrase_def
        and_then_def Let_def)
qed

text \<open>The checks of the two branches, and the boundary values of the claim.\<close>

lemma random_length_check:
  assumes "default_to Random (mode opts) = Random"
  shows "PasswordGenerator_new opts = Inl InvalidLength \<longleftrightarrow>
     (let len = default_to (Fin 12) (length' (spread opts (preset_fields opts)))
      in len = NaN \<or> js_lt len (Fin 8) \<or> js_lt (Fin 128) len)"
  using assms
  by (auto simp: PasswordGenerator_new_def Let_def resolved_unset_fields baseCharset_def
      isNaN_def js_gt_def split: if_splits sum.splits)

lemma passphrase_length_check:
  assumes "mode opts = Some Passphrase"
  shows "PasswordGenerator_new opts = Inl InvalidPassphraseLength \<longleftrightarrow>
     (let len = default_to (Fin 5) (length' (spread opts (preset_fields opts)))
      in js_lt len (Fin 3) \<or> js_lt (Fin 20) len)"
  using assms
  by (auto simp: PasswordGenerator_new_def Let_def resolved_unset_fields default_to_def
      js_gt_def split: if_splits sum.splits)

lemma length_boundaries:
  "PasswordGenerator_new (no_options\<lparr>length' := Some (Fin 7)\<rparr>) = Inl InvalidLength"
  "PasswordGenerator_new (no_options\<lparr>length' := Some (Fin 129)\<rparr>) = Inl InvalidLength"
  "map_sum id this_length (PasswordGenerator_new (no_options\<lparr>length' := Some (Fin 8)\<rparr>))
     = Inr (Fin 8)"
  "map_sum id this_length (PasswordGenerator_new (no_options\<lparr>length' := Some (Fin 128)\<rparr>))
     = Inr (Fin 128)"
  "PasswordGenerator_new (no_options\<lparr>mode := Some Passphrase, length' := Some (Fin 2)\<rparr>)
     = Inl InvalidPassphraseLength"
  "PasswordGenerator_new (no_options\<lparr>mode := Some Passphrase, length' := Some (Fin 21)\<rparr>)
     = Inl InvalidPassphraseLength"
  "map_sum id this_length
     (PasswordGenerator_new (no_options\<lparr>mode := Some Passphrase, length' := Some (Fin 3)\<rparr>))
     = Inr (Fin 3)"
  "map_sum id this_length
     (PasswordGenerator_new (no_options\<lparr>mode := Some Passphrase, length' := Some (Fin 20)\<rparr>))
     = Inr (Fin 20)"
  by (simp_all add: ctor_defs)

section \<open>Passphrases\<close>

text \<open>
  C9, as the claim states it, fails: a request with the empty word list is resolved to the
  empty list, not to the default one, and sampling throws on the first draw.
\<close>

theorem empty_wordlist_is_used:
  "map_sum id (getWordlist (replicate 2052 ''word'')) (PasswordGenerator_new empty_wordlist)
     = Inr []
   \<and> static_generateFull (replicate 2052 ''word'') empty_wordlist (sconst 0)
     = Some (Inl RangeError)"
proof -
  have g: "PasswordGenerator_new empty_wordlist =
     Inr \<lparr>this_mode = Passphrase, this_length = Fin 5, this_charset = [],
          this_isSpecial = False, this_options = empty_wordlist\<rparr>"
    by (simp add: empty_wordlist_def ctor_defs)
  have w: "wordlist empty_wordlist = Some []"
    by (simp add: empty_wordlist_def no_options_def)
  have "push_words (Suc 4) [] [] (sconst 0) = Some (Inl RangeError)"
    by (simp only: push_words.simps) (simp add: getRandomInt_zero and_then_def)
  then show ?thesis
    by (simp add: g w static_generateFull_def generateFull_def generatePassphrase_def
        getWordlist_def Let_def and_then_def)
qed

text \<open>
  C9, amended: the resolved word source is the word list of the request whenever the
  request carries one, the empty list included, and the built-in list only when the
  request carries none.
\<close>

theorem wordlist_resolution:
  assumes "PasswordGenerator_new opts = Inr g"
  shows "getWordlist dw g = (case wordlist opts of Some w \<Rightarrow> w | None \<Rightarrow> dw)"
  using options_of_new [OF assms] by (simp add: getWordlist_def resolved_unset_fields)

theorem wordlist_resolution_witness:
  "PasswordGenerator_new empty_wordlist =
     Inr \<lparr>this_mode = Passphrase, this_length = Fin 5, this_charset = [],
          this_isSpecial = False, this_options = empty_wordlist\<rparr>
   \<and> getWordlist [''alpha'', ''beta'']
        \<lparr>this_mode = Passphrase, this_length = Fin 5, this_charset = [],
         this_isSpecial = False, this_options = empty_wordlist\<rparr> = []"
proof -
  have g: "PasswordGenerator_new empty_wordlist =
     Inr \<lparr>this_mode = Passphrase, this_length = Fin 5, this_charset = [],
          this_isSpecial = False, this_options = empty_wordlist\<rparr>"
    by (simp add: empty_wordlist_def ctor_defs)
  show ?thesis
    using wordlist_resolution [OF g, of "[''alpha'', ''beta'']"] g
    by (simp add: empty_wordlist_def no_options_def)
qed

lemma length_of_new_passphrase:
  "PasswordGenerator_new opts = Inr g \<Longrightarrow> this_mode g = Passphrase \<Longrightarrow>
   this_length g = default_to (Fin 5) (length' (spread opts (preset_fields opts)))"
  by (auto simp: PasswordGenerator_new_def Let_def split: if_splits sum.splits)

text \<open>
  C10: a passphrase request with the empty string as separator is joined with \<open>-\<close>: the
  words drawn are joined with \<open>-\<close>, and the outcome is that of the same request without
  a separator.
\<close>

theorem empty_separator_is_dash:
  assumes "separator opts = Some []" and "mode opts = Some Passphrase"
    and "PasswordGenerator_new opts = Inr g"
  shows "generateFull dw g s =
     (case loop_count 0 (this_length g) of
        None \<Rightarrow> None
      | Some k \<Rightarrow>
          and_then (push_words k (getWordlist dw g) [] s)
            (\<lambda>words s'. Some (Inr (\<lparr>password = js_join ''-'' words\<rparr>, s'))))
     \<and> static_generateFull dw opts s = static_generateFull dw (opts\<lparr>separator := None\<rparr>) s"
proof -
  have m: "this_mode g = Passphrase"
    using mode_of_new [OF assms(3)] assms(2) by (simp add: default_to_def)
  have o: "this_options g = spread opts (preset_fields opts)"
    by (rule options_of_new [OF assms(3)])
  have sep: "separator (this_options g) = Some []"
    using assms(1) by (simp add: o resolved_unset_fields)
  have first: "generateFull dw g s =
     (case loop_count 0 (this_length g) of
        None \<Rightarrow> None
      | Some k \<Rightarrow>
          and_then (push_words k (getWordlist dw g) [] s)
            (\<lambda>words s'. Some (Inr (\<lparr>password = js_join ''-'' words\<rparr>, s'))))"
    by (simp add: generateFull_def m generatePassphrase_def sep truthy_def Let_def)
  let ?opts' = "opts\<lparr>separator := None\<rparr>"
  have pf: "preset_fields ?opts' = preset_fields opts"
    by (simp add: preset_fields_def)
  have sp: "spread ?opts' (preset_fields opts) = (spread opts (preset_fields opts))\<lparr>separator := None\<rparr>"
    by (simp add: spread_def later_def separator_preset_fields)
  define g' where "g' = g\<lparr>this_options := (this_options g)\<lparr>separator := None\<rparr>\<rparr>"
  have new': "PasswordGenerator_new ?opts' = Inr g'"
    using assms(3) unfolding g'_def o
    by (auto simp: PasswordGenerator_new_def pf sp Let_def split: if_splits sum.splits)
  have "generateFull dw g' s = generateFull dw g s"
    by (simp add: g'_def generateFull_def m generatePassphrase_def sep truthy_def Let_def
        getWordlist_def)
  then show ?thesis
    using first by (simp add: static_generateFull_def assms(3) new')
qed

lemma empty_separator_new:
  "PasswordGenerator_new empty_separator =
     Inr \<lparr>this_mode = Passphrase, this_length = Fin 3, this_charset = [],
          this_isSpecial = False, this_options = empty_separator\<rparr>"
  by (simp add: empty_separator_def ctor_defs)

theorem empty_separator_is_dash_witness:
  "separator empty_separator = Some [] \<and> mode empty_separator = Some Passphrase
   \<and> PasswordGenerator_new empty_separator =
       Inr \<lparr>this_mode = Passphrase, this_length = Fin 3, this_charset = [],
            this_isSpecial = False, this_options = empty_separator\<rparr>
   \<and> generateFull [] \<lparr>this_mode = Passphrase, this_length = Fin 3, this_charset = [],
            this_isSpecial = False, this_options = empty_separator\<rparr> (sconst 1)
       = Some (Inr (\<lparr>password = ''cd-cd-cd''\<rparr>, sconst 1))
   \<and> static_generateFull [] (empty_separator\<lparr>separator := None\<rparr>) (sconst 1)
       = Some (Inr (\<lparr>password = ''cd-cd-cd''\<rparr>, sconst 1))"
proof -
  have a: "separator empty_separator = Some []" "mode empty_separator = Some Passphrase"
    by (simp_all add: empty_separator_def no_options_def)
  have w: "wordlist empty_separator = Some [''ab'', ''cd'']"
    by (simp add: empty_separator_def no_options_def)
  have "getRandomInt 0 2 (sconst 1) = Some (Inr (1, sconst 1))"
    using getRandomInt_sconst [of 2 1] by simp
  then have d: "getRandomInt 0 (Suc (Suc 0)) (sconst 1) = Some (Inr (1, sconst 1))"
    by (simp add: numeral_2_eq_2)
  have p: "push_words (Suc (Suc (Suc 0))) [''ab'', ''cd''] [] (sconst 1)
     = Some (Inr ([Some ''cd'', Some ''cd'', Some ''cd''], sconst 1))"
    by (simp add: d and_then_def js_at_def)
  have p3: "push_words 3 [''ab'', ''cd''] [] (sconst 1)
     = Some (Inr ([Some ''cd'', Some ''cd'', Some ''cd''], sconst 1))"
    using p by (simp only: numeral_3_eq_3)
  note th = empty_separator_is_dash [OF a empty_separator_new, of "[]" "sconst 1"]
  have r1: "generateFull [] \<lparr>this_mode = Passphrase, this_length = Fin 3, this_charset = [],
            this_isSpecial = False, this_options = empty_separator\<rparr> (sconst 1)
       = Some (Inr (\<lparr>password = ''cd-cd-cd''\<rparr>, sconst 1))"
    using th by (simp add: getWordlist_def w p3 and_then_def)
  have r2: "static_generateFull [] empty_separator (sconst 1)
       = static_generateFull [] (empty_separator\<lparr>separator := None\<rparr>) (sconst 1)"
    using th by blast
  have r3: "static_generateFull [] empty_separator (sconst 1)
       = generateFull [] \<lparr>this_mode = Passphrase, this_length = Fin 3, this_charset = [],
            this_isSpecial = False, this_options = empty_separator\<rparr> (sconst 1)"
    by (simp add: static_generateFull_def empty_separator_new)
  show ?thesis
    using a empty_separator_new r1 r2 r3 by simp
qed

section \<open>Facts about random mode\<close>

subsection \<open>Sequencing\<close>

lemma and_then_Inr:
  "and_then r f = Some (Inr y) \<longleftrightarrow> (\<exists>a s. r = Some (Inr (a, s)) \<and> f a s = Some (Inr y))"
  by (auto simp: and_then_def split: option.splits sum.splits)

lemma and_then_Inl:
  "and_then r f = Some (Inl e) \<longleftrightarrow>
     r = Some (Inl e) \<or> (\<exists>a s. r = Some (Inr (a, s)) \<and> f a s = Some (Inl e))"
  by (auto simp: and_then_def split: option.splits sum.splits)

lemma and_then_return: "and_then (Some (Inr (a, s))) f = f a s"
  by (simp add: and_then_def)

subsection \<open>Picking characters\<close>

lemma js_at_cases: "js_at xs i = None \<or> (\<exists>x. js_at xs i = Some x \<and> x \<in> set xs)"
  by (simp add: js_at_def)

lemma js_at_in_range: "0 \<le> i \<Longrightarrow> i < int (length xs) \<Longrightarrow> \<exists>x. js_at xs i = Some x \<and> x \<in> set xs"
  by (simp add: js_at_def)

lemma remove_similar_subset: "set (remove_similar s) \<subseteq> set s - SIMILAR_CHARS"
  by (auto simp: remove_similar_def)

lemma length_remove_similar: "length (remove_similar s) \<le> length s"
  by (simp add: remove_similar_def)

lemma pick_no_error: "source \<noteq> [] \<Longrightarrow> pick g source s \<noteq> Some (Inl e)"
  by (auto simp: pick_def Let_def and_then_Inl getRandomInt_no_error)

lemma picked_weak:
  assumes "picked g source c"
  shows "c = None \<or> (\<exists>x. c = Some x \<and> x \<in> set source)"
proof -
  from assms obtain s s' where p: "pick g source s = Some (Inr (c, s'))"
    unfolding picked_def by blast
  then obtain src i where "c = js_at src i" "set src \<subseteq> set source"
    using remove_similar_subset [of source]
    by (fastforce simp: pick_def Let_def and_then_Inr split: if_splits)
  then show ?thesis using js_at_cases [of src i] by auto
qed

lemma picked_not_similar:
  assumes "picked g source c" and "default_to False (excludeSimilar (this_options g))"
    and "remove_similar source \<noteq> []"
  shows "c = None \<or> (\<exists>x. c = Some x \<and> x \<notin> SIMILAR_CHARS)"
proof -
  from assms(1) obtain s s' where p: "pick g source s = Some (Inr (c, s'))"
    unfolding picked_def by blast
  with assms(2,3) obtain i where "c = js_at (remove_similar source) i"
    by (auto simp: pick_def Let_def and_then_Inr)
  then show ?thesis
    using js_at_cases [of "remove_similar source" i] remove_similar_subset [of source] by auto
qed

lemma picked_small:
  assumes "picked g source c" and "length source \<le> 2 ^ 24"
  shows "\<exists>x. c = Some x \<and> x \<in> set source"
proof -
  from assms(1) obtain s s' where p: "pick g source s = Some (Inr (c, s'))"
    unfolding picked_def by blast
  then obtain src i s1 where src: "getRandomInt 0 (length src) s = Some (Inr (i, s1))"
      "c = js_at src i" "set src \<subseteq> set source" "length src \<le> length source"
    using remove_similar_subset [of source] length_remove_similar [of source]
    by (fastforce simp: pick_def Let_def and_then_Inr split: if_splits)
  have "0 \<le> i \<and> i < int (length src)"
    using src(1) by (rule getRandomInt_range) (use src(4) assms(2) in simp)
  then show ?thesis using js_at_in_range [of i src] src(2,3) by auto
qed

lemma push_picks_result:
  "push_picks k g source acc s = Some (Inr (out, s')) \<Longrightarrow>
     \<exists>new. out = acc @ new \<and> length new = k \<and> (\<forall>c\<in>set new. picked g source c)"
proof (induction k arbitrary: acc s)
  case 0
  then show ?case by simp
next
  case (Suc k)
  from Suc.prems obtain c s1 where c: "pick g source s = Some (Inr (c, s1))"
    and rest: "push_picks k g source (acc @ [c]) s1 = Some (Inr (out, s'))"
    by (auto simp: and_then_Inr)
  from Suc.IH [OF rest] obtain new where new:
    "out = (acc @ [c]) @ new" "length new = k" "\<forall>c\<in>set new. picked g source c" by blast
  have "picked g source c" using c unfolding picked_def by blast
  with new show ?case by (intro exI [of _ "c # new"]) simp
qed

lemma push_picks_no_error:
  "source \<noteq> [] \<Longrightarrow> push_picks k g source acc s \<noteq> Some (Inl e)"
  by (induction k arbitrary: acc s) (auto simp: and_then_Inl pick_no_error)

lemma push_loop_result:
  "push_loop start bound g source acc s = Some (Inr (out, s')) \<Longrightarrow>
     \<exists>k new. loop_count start bound = Some k \<and> out = acc @ new \<and> length new = k
        \<and> (\<forall>c\<in>set new. picked g source c)"
  by (auto simp: push_loop_def split: option.splits dest: push_picks_result)

lemma push_loop_no_error:
  "source \<noteq> [] \<Longrightarrow> push_loop start bound g source acc s \<noteq> Some (Inl e)"
  by (simp add: push_loop_def push_picks_no_error split: option.splits)

subsection \<open>The shuffle\<close>

lemma js_swap_in_range:
  "0 \<le> j \<Longrightarrow> nat j < length xs \<Longrightarrow> i < length xs \<Longrightarrow>
     mset (js_swap xs i j) = mset xs \<and> length (js_swap xs i j) = length xs"
  by (simp add: js_swap_def mset_swap)

lemma shuffle_from_result:
  "shuffle_from i xs s = Some (Inr (ys, s')) \<Longrightarrow> i < length xs \<Longrightarrow> length xs \<le> 2 ^ 24 \<Longrightarrow>
     mset ys = mset xs"
proof (induction i arbitrary: xs s)
  case 0
  then show ?case by simp
next
  case (Suc i)
  from Suc.prems(1) obtain j s1 where j: "getRandomInt 0 (Suc i + 1) s = Some (Inr (j, s1))"
    and rest: "shuffle_from i (js_swap xs (Suc i) j) s1 = Some (Inr (ys, s'))"
    by (auto simp: and_then_Inr)
  have "0 \<le> j \<and> j < int (Suc i + 1)"
    using j by (rule getRandomInt_range) (use Suc.prems(2,3) in simp)
  then have sw: "mset (js_swap xs (Suc i) j) = mset xs \<and> length (js_swap xs (Suc i) j) = length xs"
    using Suc.prems(2) by (intro js_swap_in_range) auto
  have "mset ys = mset (js_swap xs (Suc i) j)"
    using rest by (rule Suc.IH) (use sw Suc.prems(2,3) in simp_all)
  with sw show ?case by simp
qed

lemma shuffle_from_no_error: "shuffle_from i xs s \<noteq> Some (Inl e)"
  by (induction i arbitrary: xs s) (auto simp: and_then_Inl getRandomInt_no_error)

lemma shuffle_result:
  assumes "shuffle xs s = Some (Inr (ys, s'))" and "length xs \<le> 2 ^ 24"
  shows "mset ys = mset xs"
proof (cases "xs = []")
  case True
  with assms(1) show ?thesis by (simp add: shuffle_def)
next
  case False
  then have "length xs - 1 < length xs" by (cases xs) simp_all
  with assms show ?thesis unfolding shuffle_def by (intro shuffle_from_result)
qed

lemma shuffle_no_error: "shuffle xs s \<noteq> Some (Inl e)"
  by (simp add: shuffle_def shuffle_from_no_error)

subsection \<open>What the constructor establishes\<close>

lemma valid_length_is_finite:
  assumes "\<not> isNaN len" "\<not> js_lt len (Fin 8)" "\<not> js_gt len (Fin 128)"
  shows "\<exists>n. Math_floor len = Fin (of_nat n) \<and> 8 \<le> n \<and> n \<le> 128"
proof (cases len)
  case (Fin q)
  with assms have q: "8 \<le> q" "q \<le> 128" by (simp_all add: js_gt_def)
  have "\<lfloor>8 :: rat\<rfloor> \<le> \<lfloor>q\<rfloor>" using q(1) by (rule floor_mono)
  moreover have "\<lfloor>q\<rfloor> \<le> \<lfloor>128 :: rat\<rfloor>" using q(2) by (rule floor_mono)
  ultimately have lo: "8 \<le> \<lfloor>q\<rfloor>" and hi: "\<lfloor>q\<rfloor> \<le> 128" by simp_all
  have "rat_of_int \<lfloor>q\<rfloor> = of_nat (nat \<lfloor>q\<rfloor>)" using lo by simp
  moreover have "8 \<le> nat \<lfloor>q\<rfloor>" "nat \<lfloor>q\<rfloor> \<le> 128" using lo hi by linarith+
  ultimately show ?thesis using Fin by auto
qed (use assms in \<open>simp_all add: isNaN_def js_gt_def\<close>)

lemma baseCharset_nonempty: "baseCharset custom isSp = Inr base \<Longrightarrow> base \<noteq> []"
  by (auto simp: baseCharset_def truthy_def alphabet_defs split: if_splits option.splits)

lemma remove_similar_idem: "remove_similar (remove_similar s) = remove_similar s"
  by (simp add: remove_similar_def)

lemma new_random:
  assumes "PasswordGenerator_new opts = Inr g" and "this_mode g = Random"
  shows "\<exists>n. this_length g = Fin (of_nat n) \<and> 8 \<le> n \<and> n \<le> 128"
    and "this_charset g \<noteq> []"
    and "default_to False (excludeSimilar (this_options g)) \<Longrightarrow>
           remove_similar (this_charset g) = this_charset g"
  using assms
  by (auto simp: PasswordGenerator_new_def Let_def remove_similar_idem
      split: if_splits sum.splits
      dest: baseCharset_nonempty intro!: valid_length_is_finite)

lemma fixed_categories:
  "LOWER \<noteq> []" "UPPER \<noteq> []" "DIGITS \<noteq> []" "SPECIAL \<noteq> []"
  "remove_similar LOWER \<noteq> []" "remove_similar UPPER \<noteq> []"
  "remove_similar DIGITS \<noteq> []" "remove_similar SPECIAL \<noteq> []"
  "length LOWER \<le> 2 ^ 24" "length UPPER \<le> 2 ^ 24" "length DIGITS \<le> 2 ^ 24"
  "length SPECIAL \<le> 2 ^ 24"
  by (simp_all add: alphabet_defs)

lemma categories_disjoint:
  "set LOWER \<inter> set UPPER = {}" "set LOWER \<inter> set DIGITS = {}" "set LOWER \<inter> set SPECIAL = {}"
  "set UPPER \<inter> set DIGITS = {}" "set UPPER \<inter> set SPECIAL = {}" "set DIGITS \<inter> set SPECIAL = {}"
  by (simp_all add: alphabet_defs)

subsection \<open>The stages of \<^verbatim>\<open>generateRandom\<close>\<close>

lemma js_gt_nat: "js_gt (Fin (of_nat a)) (Fin (of_nat b)) \<longleftrightarrow> b < a"
  by (simp add: js_gt_def)


lemma generateRandom_stages:
  assumes gen: "generateRandom g s = Some (Inr (r, s'))"
    and len: "this_length g = Fin (of_nat n)"
  obtains k1 k2 k3 k4 l u d sp rest s5 shuffled where
    "loop_count 0 (actualMin (this_options g) (minLower (this_options g))) = Some k1"
    "loop_count 0 (actualMin (this_options g) (minUpper (this_options g))) = Some k2"
    "loop_count 0 (actualMin (this_options g) (minDigit (this_options g))) = Some k3"
    "loop_count 0 (actualMin (this_options g) (minSpecial (this_options g))) = Some k4"
    "length l = k1" "length u = k2" "length d = k3" "length sp = k4"
    "\<forall>c\<in>set l. picked g LOWER c" "\<forall>c\<in>set u. picked g UPPER c"
    "\<forall>c\<in>set d. picked g DIGITS c" "\<forall>c\<in>set sp. picked g SPECIAL c"
    "\<forall>c\<in>set rest. picked g (this_charset g) c"
    "k1 + k2 + k3 + k4 \<le> n" "length rest = n - (k1 + k2 + k3 + k4)"
    "shuffle (l @ u @ d @ sp @ rest) s5 = Some (Inr (shuffled, s'))"
    "password r = join_chars shuffled"
proof -
  let ?o = "this_options g"
  from gen obtain r1 s1 r2 s2 r3 s3 r4 s4 where
    p1: "push_loop 0 (actualMin ?o (minLower ?o)) g LOWER [] s = Some (Inr (r1, s1))" and
    p2: "push_loop 0 (actualMin ?o (minUpper ?o)) g UPPER r1 s1 = Some (Inr (r2, s2))" and
    p3: "push_loop 0 (actualMin ?o (minDigit ?o)) g DIGITS r2 s2 = Some (Inr (r3, s3))" and
    p4: "push_loop 0 (actualMin ?o (minSpecial ?o)) g SPECIAL r3 s3 = Some (Inr (r4, s4))" and
    tail: "(if js_gt (Fin (of_nat (length r4))) (this_length g)
        then Some (Inl MinimumsExceedLength)
        else
          and_then (push_loop (length r4) (this_length g) g (this_charset g) r4 s4)
            (\<lambda>filled s5. and_then (shuffle filled s5) (\<lambda>shuffled s6.
               Some (Inr (\<lparr>password = join_chars shuffled\<rparr>, s6))))) = Some (Inr (r, s'))"
    unfolding generateRandom_def Let_def and_then_Inr by blast
  from tail have fits: "length r4 \<le> n"
    by (auto simp: len js_gt_nat split: if_splits)
  with tail obtain filled s5 shuffled where
    p5: "push_loop (length r4) (this_length g) g (this_charset g) r4 s4 = Some (Inr (filled, s5))"
    and sh: "shuffle filled s5 = Some (Inr (shuffled, s'))"
    and pw: "password r = join_chars shuffled"
    by (auto simp: len js_gt_nat and_then_Inr split: if_splits)
  from push_loop_result [OF p1] obtain k1 l where 1:
    "loop_count 0 (actualMin ?o (minLower ?o)) = Some k1" "r1 = l" "length l = k1"
    "\<forall>c\<in>set l. picked g LOWER c" by auto
  from push_loop_result [OF p2] obtain k2 u where 2:
    "loop_count 0 (actualMin ?o (minUpper ?o)) = Some k2" "r2 = r1 @ u" "length u = k2"
    "\<forall>c\<in>set u. picked g UPPER c" by auto
  from push_loop_result [OF p3] obtain k3 d where 3:
    "loop_count 0 (actualMin ?o (minDigit ?o)) = Some k3" "r3 = r2 @ d" "length d = k3"
    "\<forall>c\<in>set d. picked g DIGITS c" by auto
  from push_loop_result [OF p4] obtain k4 sp where 4:
    "loop_count 0 (actualMin ?o (minSpecial ?o)) = Some k4" "r4 = r3 @ sp" "length sp = k4"
    "\<forall>c\<in>set sp. picked g SPECIAL c" by auto
  from push_loop_result [OF p5] obtain k5 rest where 5:
    "loop_count (length r4) (this_length g) = Some k5" "filled = r4 @ rest" "length rest = k5"
    "\<forall>c\<in>set rest. picked g (this_charset g) c" by auto
  have r4: "r4 = l @ u @ d @ sp" "length r4 = k1 + k2 + k3 + k4"
    using 1 2 3 4 by simp_all
  have "k5 = n - (k1 + k2 + k3 + k4)" using 5(1) by (simp add: len r4(2))
  then show thesis
    using that [of k1 k2 k3 k4 l u d sp rest s5 shuffled] 1 2 3 4 5 r4 fits sh pw
    by simp
qed

subsection \<open>Characters of the password\<close>

lemma set_join_chars: "set (join_chars cs) = {x. Some x \<in> set cs}"
  by (auto simp: join_chars_def split: option.splits)

lemma count_in_join_chars:
  "count_in cat (join_chars cs) =
     size (filter_mset (\<lambda>c. case c of None \<Rightarrow> False | Some x \<Rightarrow> x \<in> set cat) (mset cs))"
  by (induction cs) (simp_all add: count_in_def join_chars_def split: option.splits)

lemma count_in_all:
  "\<forall>c\<in>set cs. \<exists>x. c = Some x \<and> x \<in> set cat \<Longrightarrow> count_in cat (join_chars cs) = length cs"
  by (induction cs) (auto simp: count_in_def join_chars_def)

lemma count_in_append:
  "count_in cat (join_chars (xs @ ys)) = count_in cat (join_chars xs) + count_in cat (join_chars ys)"
  by (simp add: count_in_def join_chars_def)

lemma excludeSimilar_resolved:
  "excludeSimilar opts = Some True \<Longrightarrow>
     excludeSimilar (spread opts (preset_fields opts)) = Some True"
  by (simp add: spread_def later_def preset_fields_def PRESETS_def no_options_def
      split: option.splits)

lemma mode_random: "mode opts \<noteq> Some Passphrase \<Longrightarrow> default_to Random (mode opts) = Random"
  by (cases "mode opts") (auto simp: default_to_def intro: gen_mode.exhaust)

lemma min_resolved_not_NaN:
  "minLower opts \<noteq> Some NaN \<Longrightarrow> minLower (spread opts (preset_fields opts)) \<noteq> Some NaN"
  "minUpper opts \<noteq> Some NaN \<Longrightarrow> minUpper (spread opts (preset_fields opts)) \<noteq> Some NaN"
  "minDigit opts \<noteq> Some NaN \<Longrightarrow> minDigit (spread opts (preset_fields opts)) \<noteq> Some NaN"
  "minSpecial opts \<noteq> Some NaN \<Longrightarrow> minSpecial (spread opts (preset_fields opts)) \<noteq> Some NaN"
  by (simp_all add: spread_def later_def preset_fields_def PRESETS_def no_options_def
      split: option.splits)

lemma Math_max_not_NaN: "a \<noteq> NaN \<Longrightarrow> Math_max a (Fin 1) \<noteq> NaN"
  by (cases a) simp_all

lemma actualMin_not_NaN: "m \<noteq> Some NaN \<Longrightarrow> actualMin options m \<noteq> NaN"
  by (cases m) (simp_all add: actualMin_def default_to_def Math_max_not_NaN)

lemma loop_count_bound:
  assumes "loop_count 0 m = Some k" and "m \<noteq> NaN" and "k \<le> c"
  shows "js_ge (Fin (of_nat c)) m"
proof (cases m)
  case (Fin q)
  with assms(1) have k: "k = nat \<lceil>q\<rceil>" by simp
  have "q \<le> of_int \<lceil>q\<rceil>" by (rule le_of_int_ceiling)
  also have "\<lceil>q\<rceil> \<le> int c" using assms(3) k by linarith
  then have "rat_of_int \<lceil>q\<rceil> \<le> rat_of_int (int c)" by (simp only: of_int_le_iff)
  finally have "q \<le> of_nat c" by simp
  then show ?thesis using Fin by (simp add: js_ge_def not_less)
qed (use assms in \<open>simp_all add: js_ge_def\<close>)

section \<open>Similar characters\<close>

text \<open>
  C5: a random-mode request with \<open>excludeSimilar = true\<close> yields a password without any
  of the characters \<open>i l 1 L o 0 O\<close>, whatever the length, the custom alphabet, the
  minimums and the random bytes are; the four fixed categories are not empty after the
  filter, so \<^verbatim>\<open>pick\<close> never falls back to an unfiltered category.
\<close>

theorem no_similar_characters:
  assumes excl: "excludeSimilar opts = Some True" and mode: "mode opts \<noteq> Some Passphrase"
    and new: "PasswordGenerator_new opts = Inr g"
    and gen: "generateFull dw g s = Some (Inr (r, s'))"
  shows "set (password r) \<inter> SIMILAR_CHARS = {}
       \<and> remove_similar LOWER \<noteq> [] \<and> remove_similar UPPER \<noteq> []
       \<and> remove_similar DIGITS \<noteq> [] \<and> remove_similar SPECIAL \<noteq> []"
proof -
  have m: "this_mode g = Random"
    using mode_of_new [OF new] mode_random [OF mode] by simp
  have ex: "default_to False (excludeSimilar (this_options g))"
    using excl by (simp add: options_of_new [OF new] excludeSimilar_resolved default_to_def)
  from new_random(1) [OF new m] obtain n where n: "this_length g = Fin (of_nat n)" "n \<le> 128"
    by blast
  have cs: "remove_similar (this_charset g) \<noteq> []"
    using new_random(2,3) [OF new m] ex by simp
  let ?o = "this_options g"
  from gen m have gr: "generateRandom g s = Some (Inr (r, s'))" by (simp add: generateFull_def)
  obtain k1 k2 k3 k4 l u d sp rest s5 shuffled where st:
    "loop_count 0 (actualMin ?o (minLower ?o)) = Some k1"
    "loop_count 0 (actualMin ?o (minUpper ?o)) = Some k2"
    "loop_count 0 (actualMin ?o (minDigit ?o)) = Some k3"
    "loop_count 0 (actualMin ?o (minSpecial ?o)) = Some k4"
    "length l = k1" "length u = k2" "length d = k3" "length sp = k4"
    "\<forall>c\<in>set l. picked g LOWER c" "\<forall>c\<in>set u. picked g UPPER c"
    "\<forall>c\<in>set d. picked g DIGITS c" "\<forall>c\<in>set sp. picked g SPECIAL c"
    "\<forall>c\<in>set rest. picked g (this_charset g) c"
    "k1 + k2 + k3 + k4 \<le> n" "length rest = n - (k1 + k2 + k3 + k4)"
    "shuffle (l @ u @ d @ sp @ rest) s5 = Some (Inr (shuffled, s'))"
    "password r = join_chars shuffled"
    by (rule generateRandom_stages [OF gr n(1)])
  have "length (l @ u @ d @ sp @ rest) \<le> 2 ^ 24" using st(5-8,14,15) n(2) by simp
  with st(16) have "mset shuffled = mset (l @ u @ d @ sp @ rest)" by (rule shuffle_result)
  then have sets: "set shuffled = set (l @ u @ d @ sp @ rest)" by (rule mset_eq_setD)
  have ok: "\<forall>c\<in>set xs. c \<noteq> Some x" 
    if "\<forall>c\<in>set xs. picked g src c" "remove_similar src \<noteq> []" "x \<in> SIMILAR_CHARS"
    for xs src x
    using that picked_not_similar [OF _ ex that(2)] by blast
  have "x \<notin> SIMILAR_CHARS" if x: "Some x \<in> set shuffled" for x
  proof
    assume sim: "x \<in> SIMILAR_CHARS"
    note ok [OF st(9) fixed_categories(5) sim] ok [OF st(10) fixed_categories(6) sim]
      ok [OF st(11) fixed_categories(7) sim] ok [OF st(12) fixed_categories(8) sim]
      ok [OF st(13) cs sim]
    then have "Some x \<notin> set (l @ u @ d @ sp @ rest)" by auto
    with x sets show False by simp
  qed
  then have "set (password r) \<inter> SIMILAR_CHARS = {}"
    by (auto simp: st(17) set_join_chars)
  then show ?thesis using fixed_categories(5-8) by simp
qed

section \<open>Minimums of the categories\<close>

text \<open>
  The minimums that are numbers are met. For a generator in random mode and every outcome
  of the random source, the password has at least the effective minimum of characters of
  each category whose minimum in the resolved options is not \<^verbatim>\<open>NaN\<close>: the minimum of the
  resolved options (the request's value, replaced by the preset's where the preset defines
  one), raised to at least 1 when no custom alphabet is given and special characters are
  enabled. Fractions and negative numbers are included; a category whose minimum is \<^verbatim>\<open>NaN\<close>
  takes nothing from the others.
\<close>

lemma minimums_are_met:
  assumes new: "PasswordGenerator_new opts = Inr g"
    and m: "this_mode g = Random"
    and gen: "generateFull dw g s = Some (Inr (r, s'))"
  shows "(minLower (this_options g) \<noteq> Some NaN \<longrightarrow>
           meets_minimum LOWER (actualMin (this_options g) (minLower (this_options g)))
             (password r))
       \<and> (minUpper (this_options g) \<noteq> Some NaN \<longrightarrow>
           meets_minimum UPPER (actualMin (this_options g) (minUpper (this_options g)))
             (password r))
       \<and> (minDigit (this_options g) \<noteq> Some NaN \<longrightarrow>
           meets_minimum DIGITS (actualMin (this_options g) (minDigit (this_options g)))
             (password r))
       \<and> (minSpecial (this_options g) \<noteq> Some NaN \<longrightarrow>
           meets_minimum SPECIAL (actualMin (this_options g) (minSpecial (this_options g)))
             (password r))"
proof -
  let ?o = "this_options g"
  from new_random(1) [OF new m] obtain n where n: "this_length g = Fin (of_nat n)" "n \<le> 128"
    by blast
  from gen m have gr: "generateRandom g s = Some (Inr (r, s'))" by (simp add: generateFull_def)
  obtain k1 k2 k3 k4 l u d sp rest s5 shuffled where st:
    "loop_count 0 (actualMin ?o (minLower ?o)) = Some k1"
    "loop_count 0 (actualMin ?o (minUpper ?o)) = Some k2"
    "loop_count 0 (actualMin ?o (minDigit ?o)) = Some k3"
    "loop_count 0 (actualMin ?o (minSpecial ?o)) = Some k4"
    "length l = k1" "length u = k2" "length d = k3" "length sp = k4"
    "\<forall>c\<in>set l. picked g LOWER c" "\<forall>c\<in>set u. picked g UPPER c"
    "\<forall>c\<in>set d. picked g DIGITS c" "\<forall>c\<in>set sp. picked g SPECIAL c"
    "\<forall>c\<in>set rest. picked g (this_charset g) c"
    "k1 + k2 + k3 + k4 \<le> n" "length rest = n - (k1 + k2 + k3 + k4)"
    "shuffle (l @ u @ d @ sp @ rest) s5 = Some (Inr (shuffled, s'))"
    "password r = join_chars shuffled"
    by (rule generateRandom_stages [OF gr n(1)])
  let ?filled = "l @ u @ d @ sp @ rest"
  have "length ?filled \<le> 2 ^ 24" using st(5-8,14,15) n(2) by simp
  with st(16) have ms: "mset shuffled = mset ?filled" by (rule shuffle_result)
  have same: "count_in cat (join_chars shuffled) = count_in cat (join_chars ?filled)" for cat
    by (simp only: count_in_join_chars ms)
  have cnt: "count_in src (join_chars xs) = length xs"
    if "\<forall>c\<in>set xs. picked g src c" "length src \<le> 2 ^ 24" for xs src
    by (rule count_in_all) (use that picked_small in blast)
  have cl: "count_in LOWER (join_chars l) = k1"
    using cnt [OF st(9) fixed_categories(9)] st(5) by simp
  have cu: "count_in UPPER (join_chars u) = k2"
    using cnt [OF st(10) fixed_categories(10)] st(6) by simp
  have cd: "count_in DIGITS (join_chars d) = k3"
    using cnt [OF st(11) fixed_categories(11)] st(7) by simp
  have csp: "count_in SPECIAL (join_chars sp) = k4"
    using cnt [OF st(12) fixed_categories(12)] st(8) by simp
  have ge: "k1 \<le> count_in LOWER (password r)" "k2 \<le> count_in UPPER (password r)"
    "k3 \<le> count_in DIGITS (password r)" "k4 \<le> count_in SPECIAL (password r)"
    using cl cu cd csp by (simp_all add: st(17) same count_in_append)
  have met: "meets_minimum cat (actualMin ?o mn) (password r)"
    if "loop_count 0 (actualMin ?o mn) = Some k" "mn \<noteq> Some NaN"
      "k \<le> count_in cat (password r)" for cat mn k
    unfolding meets_minimum_def using that(1) actualMin_not_NaN [OF that(2)] that(3)
    by (rule loop_count_bound)
  show ?thesis
    using met [OF st(1) _ ge(1)] met [OF st(2) _ ge(2)] met [OF st(3) _ ge(3)]
      met [OF st(4) _ ge(4)]
    by blast
qed

text \<open>
  The final shuffle changes no count: the shuffled array is a permutation of the array it
  is given, for every random source on which it returns (arrays of at most \<open>2\<^sup>2\<^sup>4\<close> elements,
  the range of a draw that is within three bytes; a password has at most 128).
\<close>

lemma shuffle_keeps_counts:
  assumes "shuffle xs s = Some (Inr (ys, s'))" and "length xs \<le> 2 ^ 24"
  shows "count_in cat (join_chars ys) = count_in cat (join_chars xs)"
  by (simp only: count_in_join_chars shuffle_result [OF assms])

text \<open>Without a preset the minimums of the resolved options are those of the request.\<close>

lemma minimums_of_request:
  assumes "PasswordGenerator_new opts = Inr g" and "preset opts = None"
  shows "minLower (this_options g) = minLower opts" "minUpper (this_options g) = minUpper opts"
    "minDigit (this_options g) = minDigit opts" "minSpecial (this_options g) = minSpecial opts"
  using assms(2)
  by (simp_all add: options_of_new [OF assms(1)] preset_fields_def truthy_def spread_no_options)

section \<open>Runs on a constant stream\<close>

lemma pick_sconst:
  assumes "src' = (if default_to False (excludeSimilar (this_options g)) \<and> remove_similar src \<noteq> []
                   then remove_similar src else src)"
    and "0 < length src'" and "length src' \<le> 256" and "unat b < 256 - 256 mod length src'"
  shows "pick g src (sconst b) = Some (Inr (Some (src' ! (unat b mod length src')), sconst b))"
proof -
  have d: "getRandomInt 0 (length src') (sconst b)
      = Some (Inr (int (unat b mod length src'), sconst b))"
    using assms(2-4) by (rule getRandomInt_sconst)
  have "unat b mod length src' < length src'" using assms(2) by simp
  then have at: "js_at src' (int (unat b mod length src')) = Some (src' ! (unat b mod length src'))"
    by (simp add: js_at_def)
  show ?thesis
  proof (cases "default_to False (excludeSimilar (this_options g)) \<and> remove_similar src \<noteq> []")
    case True
    with assms(1) have "src' = remove_similar src" by simp
    with True d at show ?thesis by (simp add: pick_def and_then_return Let_def)
  next
    case False
    with assms(1) have "src' = src" by simp
    with False d at show ?thesis by (auto simp: pick_def and_then_return Let_def)
  qed
qed

lemma push_picks_sconst:
  "pick g src (sconst b) = Some (Inr (c, sconst b)) \<Longrightarrow>
     push_picks k g src acc (sconst b) = Some (Inr (acc @ replicate k c, sconst b))"
  by (induction k arbitrary: acc) (simp_all add: and_then_return replicate_app_Cons_same)

lemma push_loop_sconst:
  "pick g src (sconst b) = Some (Inr (c, sconst b)) \<Longrightarrow> loop_count start bound = Some k \<Longrightarrow>
     push_loop start bound g src acc (sconst b) = Some (Inr (acc @ replicate k c, sconst b))"
  by (simp add: push_loop_def push_picks_sconst)

lemma shuffle_from_sconst:
  assumes "i + 2 \<le> 256" and "unat b < 256 - 256 mod (i + 2)"
  shows "shuffle_from (Suc i) xs (sconst b) =
     shuffle_from i (js_swap xs (Suc i) (int (unat b mod (i + 2)))) (sconst b)"
proof -
  have "getRandomInt 0 (i + 2) (sconst b) = Some (Inr (int (unat b mod (i + 2)), sconst b))"
    using assms by (intro getRandomInt_sconst) simp_all
  then show ?thesis by (simp add: and_then_return)
qed

lemma shuffle_step:
  assumes "i = Suc i'" and "i + 1 \<le> 256" and "unat b < 256 - 256 mod (i + 1)"
    and "j = int (unat b mod (i + 1))" and "ys = js_swap xs i j"
  shows "shuffle_from i xs (sconst b) = shuffle_from i' ys (sconst b)"
  using assms shuffle_from_sconst [of i' b xs] by simp

lemma shuffle_last:
  assumes "j = int (unat b mod 2)" and "ys = js_swap xs (Suc 0) j"
  shows "shuffle_from (Suc 0) xs (sconst b) = shuffle_from 0 ys (sconst b)"
proof -
  have "unat b < 256" using unsigned_less [of b, where 'a = nat] by simp
  then have d: "getRandomInt 0 2 (sconst b) = Some (Inr (int (unat b mod 2), sconst b))"
    by (intro getRandomInt_sconst) simp_all
  have e: "Suc 0 + 1 = (2::nat)" by simp
  show ?thesis
    by (subst shuffle_from.simps(2)) (simp only: e d and_then_return assms)
qed

lemma list_update_numeral: "(x # xs)[numeral k := y] = x # xs[pred_numeral k := y]"
  by (simp add: numeral_eq_Suc)

lemma shuffle_8_sconst_0:
  "shuffle [x0, x1, x2, x3, x4, x5, x6, x7] (sconst 0)
     = Some (Inr ([x1, x2, x3, x4, x5, x6, x7, x0], sconst 0))"
proof -
  have "length [x0, x1, x2, x3, x4, x5, x6, x7] - 1 = 7" by simp
  then have "shuffle [x0, x1, x2, x3, x4, x5, x6, x7] (sconst 0)
      = shuffle_from 7 [x0, x1, x2, x3, x4, x5, x6, x7] (sconst 0)"
    by (simp only: shuffle_def)
  also have "\<dots> = shuffle_from 6 [x7, x1, x2, x3, x4, x5, x6, x0] (sconst 0)"
    by (rule shuffle_step [where j = 0]) (simp_all add: js_swap_def list_update_numeral)
  also have "\<dots> = shuffle_from 5 [x6, x1, x2, x3, x4, x5, x7, x0] (sconst 0)"
    by (rule shuffle_step [where j = 0]) (simp_all add: js_swap_def list_update_numeral)
  also have "\<dots> = shuffle_from 4 [x5, x1, x2, x3, x4, x6, x7, x0] (sconst 0)"
    by (rule shuffle_step [where j = 0]) (simp_all add: js_swap_def list_update_numeral)
  also have "\<dots> = shuffle_from 3 [x4, x1, x2, x3, x5, x6, x7, x0] (sconst 0)"
    by (rule shuffle_step [where j = 0]) (simp_all add: js_swap_def list_update_numeral)
  also have "\<dots> = shuffle_from 2 [x3, x1, x2, x4, x5, x6, x7, x0] (sconst 0)"
    by (rule shuffle_step [where j = 0]) (simp_all add: js_swap_def list_update_numeral)
  also have "\<dots> = shuffle_from 1 [x2, x1, x3, x4, x5, x6, x7, x0] (sconst 0)"
    by (rule shuffle_step [where j = 0]) (simp_all add: js_swap_def list_update_numeral)
  also have "\<dots> = shuffle_from 0 [x1, x2, x3, x4, x5, x6, x7, x0] (sconst 0)"
    unfolding One_nat_def
    by (rule shuffle_last [where j = 0]) (simp_all add: js_swap_def)
  finally show ?thesis by simp
qed

lemma shuffle_8_sconst_26:
  "shuffle [x0, x1, x2, x3, x4, x5, x6, x7] (sconst 26)
     = Some (Inr ([x4, x0, x3, x6, x1, x7, x5, x2], sconst 26))"
proof -
  have "length [x0, x1, x2, x3, x4, x5, x6, x7] - 1 = 7" by simp
  then have "shuffle [x0, x1, x2, x3, x4, x5, x6, x7] (sconst 26)
      = shuffle_from 7 [x0, x1, x2, x3, x4, x5, x6, x7] (sconst 26)"
    by (simp only: shuffle_def)
  also have "\<dots> = shuffle_from 6 [x0, x1, x7, x3, x4, x5, x6, x2] (sconst 26)"
    by (rule shuffle_step [where j = 2]) (simp_all add: js_swap_def list_update_numeral)
  also have "\<dots> = shuffle_from 5 [x0, x1, x7, x3, x4, x6, x5, x2] (sconst 26)"
    by (rule shuffle_step [where j = 5]) (simp_all add: js_swap_def list_update_numeral)
  also have "\<dots> = shuffle_from 4 [x0, x1, x6, x3, x4, x7, x5, x2] (sconst 26)"
    by (rule shuffle_step [where j = 2]) (simp_all add: js_swap_def list_update_numeral)
  also have "\<dots> = shuffle_from 3 [x0, x4, x6, x3, x1, x7, x5, x2] (sconst 26)"
    by (rule shuffle_step [where j = 1]) (simp_all add: js_swap_def list_update_numeral)
  also have "\<dots> = shuffle_from 2 [x0, x4, x3, x6, x1, x7, x5, x2] (sconst 26)"
    by (rule shuffle_step [where j = 2]) (simp_all add: js_swap_def list_update_numeral)
  also have "\<dots> = shuffle_from 1 [x0, x4, x3, x6, x1, x7, x5, x2] (sconst 26)"
    by (rule shuffle_step [where j = 2]) (simp_all add: js_swap_def list_update_numeral)
  also have "\<dots> = shuffle_from 0 [x4, x0, x3, x6, x1, x7, x5, x2] (sconst 26)"
    unfolding One_nat_def
    by (rule shuffle_last [where j = 0]) (simp_all add: js_swap_def)
  finally show ?thesis by simp
qed

lemma category_lengths:
  "length LOWER = 26" "length UPPER = 26" "length DIGITS = 10" "length SPECIAL = 29"
  "length (LOWER @ UPPER @ DIGITS @ SPECIAL) = 91" "length (LOWER @ UPPER @ DIGITS) = 62"
  by (simp_all add: alphabet_defs)

lemma length_8_new:
  "PasswordGenerator_new length_8 =
     Inr \<lparr>this_mode = Random, this_length = Fin 8,
          this_charset = LOWER @ UPPER @ DIGITS @ SPECIAL, this_isSpecial = True,
          this_options = length_8\<rparr>"
  by (simp add: length_8_def ctor_defs)

lemma length_8_run:
  "generateFull dw \<lparr>this_mode = Random, this_length = Fin 8,
          this_charset = LOWER @ UPPER @ DIGITS @ SPECIAL, this_isSpecial = True,
          this_options = length_8\<rparr> (sconst 0)
   = Some (Inr (\<lparr>password = ''A0!aaaaa''\<rparr>, sconst 0))"
proof -
  let ?g = "\<lparr>this_mode = Random, this_length = Fin 8,
          this_charset = LOWER @ UPPER @ DIGITS @ SPECIAL, this_isSpecial = True,
          this_options = length_8\<rparr>"
  have ex: "\<not> default_to False (excludeSimilar (this_options ?g))"
    by (simp add: length_8_def no_options_def default_to_def)
  have p1: "pick ?g LOWER (sconst 0) = Some (Inr (Some CHR ''a'', sconst 0))"
    using pick_sconst [of LOWER ?g LOWER 0] ex by (simp add: category_lengths) (simp add: LOWER_def)
  have p2: "pick ?g UPPER (sconst 0) = Some (Inr (Some CHR ''A'', sconst 0))"
    using pick_sconst [of UPPER ?g UPPER 0] ex by (simp add: category_lengths) (simp add: UPPER_def)
  have p3: "pick ?g DIGITS (sconst 0) = Some (Inr (Some CHR ''0'', sconst 0))"
    using pick_sconst [of DIGITS ?g DIGITS 0] ex by (simp add: category_lengths) (simp add: DIGITS_def)
  have p4: "pick ?g SPECIAL (sconst 0) = Some (Inr (Some CHR ''!'', sconst 0))"
    using pick_sconst [of SPECIAL ?g SPECIAL 0] ex by (simp add: category_lengths) (simp add: SPECIAL_def)
  have p5: "pick ?g (this_charset ?g) (sconst 0) = Some (Inr (Some CHR ''a'', sconst 0))"
    using pick_sconst [of "LOWER @ UPPER @ DIGITS @ SPECIAL" ?g "LOWER @ UPPER @ DIGITS @ SPECIAL" 0] ex
    by (simp add: category_lengths) (simp add: LOWER_def)
  have mins: "actualMin (this_options ?g) None = Fin 1"
    by (simp add: actualMin_def length_8_def no_options_def truthy_def default_to_def)
  have o: "minLower (this_options ?g) = None" "minUpper (this_options ?g) = None"
    "minDigit (this_options ?g) = None" "minSpecial (this_options ?g) = None"
    by (simp_all add: length_8_def no_options_def)
  show ?thesis
    unfolding generateFull_def generateRandom_def Let_def o mins
    by (simp add: push_loop_sconst [OF p1] push_loop_sconst [OF p2] push_loop_sconst [OF p3]
        push_loop_sconst [OF p4] push_loop_sconst [OF p5 [simplified]] and_then_return js_gt_def
        eval_nat_numeral shuffle_8_sconst_0 join_chars_def)
qed

lemma pick_sconst_filtered:
  assumes "default_to False (excludeSimilar (this_options g))"
    and "0 < length (remove_similar src)" and "length (remove_similar src) \<le> 256"
    and "unat b < 256 - 256 mod length (remove_similar src)"
  shows "pick g src (sconst b) =
     Some (Inr (Some (remove_similar src ! (unat b mod length (remove_similar src))), sconst b))"
  using pick_sconst [of "remove_similar src" g src b] assms by auto

lemma pick_sconst_plain:
  assumes "\<not> default_to False (excludeSimilar (this_options g))"
    and "0 < length src" and "length src \<le> 256" and "unat b < 256 - 256 mod length src"
  shows "pick g src (sconst b) = Some (Inr (Some (src ! (unat b mod length src)), sconst b))"
  using pick_sconst [of src g src b] assms by auto

lemma filtered_lengths:
  "length (remove_similar LOWER) = 23" "length (remove_similar UPPER) = 24"
  "length (remove_similar DIGITS) = 8" "length (remove_similar SPECIAL) = 29"
  by (simp_all add: alphabet_defs)

lemma filtered_charset_length: "length (remove_similar (LOWER @ UPPER @ DIGITS @ SPECIAL)) = 84"
  using filtered_lengths by (simp add: remove_similar_def)

lemma remove_similar_remove_similar_charset:
  "remove_similar (remove_similar (LOWER @ UPPER @ DIGITS @ SPECIAL)) =
     remove_similar (LOWER @ UPPER @ DIGITS @ SPECIAL)"
  by (rule remove_similar_idem)

lemma first_characters:
  "LOWER ! 0 = CHR ''a''" "UPPER ! 0 = CHR ''A''" "DIGITS ! 0 = CHR ''0''"
  "SPECIAL ! 0 = CHR ''!''" "(LOWER @ UPPER @ DIGITS @ SPECIAL) ! 0 = CHR ''a''"
  "remove_similar LOWER ! 0 = CHR ''a''" "remove_similar UPPER ! 0 = CHR ''A''"
  "remove_similar DIGITS ! 0 = CHR ''2''" "remove_similar SPECIAL ! 0 = CHR ''!''"
  "remove_similar (LOWER @ UPPER @ DIGITS @ SPECIAL) ! 0 = CHR ''a''"
  by (simp_all add: alphabet_defs)

lemma characters_at_26:
  "UPPER ! 0 = CHR ''A''" "DIGITS ! 6 = CHR ''6''" "SPECIAL ! 26 = CHR ''<''"
  "(LOWER @ UPPER @ DIGITS @ SPECIAL) ! 26 = CHR ''A''"
  by (simp_all add: alphabet_defs)

lemma replicate_numeral_Cons: "replicate (numeral k) x = x # replicate (pred_numeral k) x"
  by (simp add: numeral_eq_Suc)

lemma length_8_no_similar_new:
  "PasswordGenerator_new length_8_no_similar =
     Inr \<lparr>this_mode = Random, this_length = Fin 8,
          this_charset = remove_similar (LOWER @ UPPER @ DIGITS @ SPECIAL),
          this_isSpecial = True, this_options = length_8_no_similar\<rparr>"
proof -
  have "length (remove_similar (LOWER @ UPPER @ DIGITS @ SPECIAL)) \<noteq> 0"
    by (simp add: filtered_charset_length)
  then show ?thesis
    by (simp add: length_8_no_similar_def ctor_defs)
qed

lemma length_8_no_similar_run:
  "generateFull dw \<lparr>this_mode = Random, this_length = Fin 8,
          this_charset = remove_similar (LOWER @ UPPER @ DIGITS @ SPECIAL),
          this_isSpecial = True, this_options = length_8_no_similar\<rparr> (sconst 0)
   = Some (Inr (\<lparr>password = ''A2!aaaaa''\<rparr>, sconst 0))"
proof -
  define g where "g = \<lparr>this_mode = Random, this_length = Fin 8,
          this_charset = remove_similar (LOWER @ UPPER @ DIGITS @ SPECIAL),
          this_isSpecial = True, this_options = length_8_no_similar\<rparr>"
  have ex: "default_to False (excludeSimilar (this_options g))"
    by (simp add: g_def length_8_no_similar_def no_options_def default_to_def)
  have p1: "pick g LOWER (sconst 0) = Some (Inr (Some CHR ''a'', sconst 0))"
    using pick_sconst_filtered [OF ex, of LOWER 0] by (simp add: filtered_lengths first_characters)
  have p2: "pick g UPPER (sconst 0) = Some (Inr (Some CHR ''A'', sconst 0))"
    using pick_sconst_filtered [OF ex, of UPPER 0] by (simp add: filtered_lengths first_characters)
  have p3: "pick g DIGITS (sconst 0) = Some (Inr (Some CHR ''2'', sconst 0))"
    using pick_sconst_filtered [OF ex, of DIGITS 0] by (simp add: filtered_lengths first_characters)
  have p4: "pick g SPECIAL (sconst 0) = Some (Inr (Some CHR ''!'', sconst 0))"
    using pick_sconst_filtered [OF ex, of SPECIAL 0] by (simp add: filtered_lengths first_characters)
  have p5: "pick g (this_charset g) (sconst 0) = Some (Inr (Some CHR ''a'', sconst 0))"
    using pick_sconst_filtered [OF ex, of "remove_similar (LOWER @ UPPER @ DIGITS @ SPECIAL)" 0]
    by (simp add: g_def remove_similar_idem filtered_charset_length first_characters)
  have mins: "actualMin (this_options g) None = Fin 1"
    by (simp add: g_def actualMin_def length_8_no_similar_def no_options_def truthy_def
        default_to_def)
  have o: "minLower (this_options g) = None" "minUpper (this_options g) = None"
    "minDigit (this_options g) = None" "minSpecial (this_options g) = None"
    by (simp_all add: g_def length_8_no_similar_def no_options_def)
  have m: "this_mode g = Random" and l: "this_length g = Fin 8" by (simp_all add: g_def)
  have "generateFull dw g (sconst 0) = Some (Inr (\<lparr>password = ''A2!aaaaa''\<rparr>, sconst 0))"
    unfolding generateFull_def generateRandom_def Let_def o mins m l
    by (simp add: push_loop_sconst [OF p1] push_loop_sconst [OF p2] push_loop_sconst [OF p3]
        push_loop_sconst [OF p4] push_loop_sconst [OF p5] and_then_return js_gt_def
        replicate_numeral_Cons shuffle_8_sconst_0 join_chars_def)
  then show ?thesis by (simp add: g_def)
qed

theorem no_similar_characters_witness:
  "excludeSimilar length_8_no_similar = Some True
   \<and> mode length_8_no_similar \<noteq> Some Passphrase
   \<and> PasswordGenerator_new length_8_no_similar =
       Inr \<lparr>this_mode = Random, this_length = Fin 8,
            this_charset = remove_similar (LOWER @ UPPER @ DIGITS @ SPECIAL),
            this_isSpecial = True, this_options = length_8_no_similar\<rparr>
   \<and> generateFull [] \<lparr>this_mode = Random, this_length = Fin 8,
            this_charset = remove_similar (LOWER @ UPPER @ DIGITS @ SPECIAL),
            this_isSpecial = True, this_options = length_8_no_similar\<rparr> (sconst 0)
       = Some (Inr (\<lparr>password = ''A2!aaaaa''\<rparr>, sconst 0))
   \<and> set ''A2!aaaaa'' \<inter> SIMILAR_CHARS = {}"
proof -
  have a: "excludeSimilar length_8_no_similar = Some True"
    "mode length_8_no_similar \<noteq> Some Passphrase"
    by (simp_all add: length_8_no_similar_def no_options_def)
  show ?thesis
    using no_similar_characters [OF a length_8_no_similar_new length_8_no_similar_run [of "[]"]]
      a length_8_no_similar_new length_8_no_similar_run [of "[]"]
    by simp
qed

text \<open>
  A run with an explicit minimum: length 8 and \<open>minDigit = 2\<close> on the bytes 0, 0, ...
  The array before the shuffle is \<open>a A 0 0 ! a a a\<close>.
\<close>

lemma length_8_minDigit_2_new:
  "PasswordGenerator_new length_8_minDigit_2 =
     Inr \<lparr>this_mode = Random, this_length = Fin 8,
          this_charset = LOWER @ UPPER @ DIGITS @ SPECIAL, this_isSpecial = True,
          this_options = length_8_minDigit_2\<rparr>"
  by (simp add: length_8_minDigit_2_def ctor_defs)

lemma length_8_minDigit_2_run:
  "generateFull dw \<lparr>this_mode = Random, this_length = Fin 8,
          this_charset = LOWER @ UPPER @ DIGITS @ SPECIAL, this_isSpecial = True,
          this_options = length_8_minDigit_2\<rparr> (sconst 0)
   = Some (Inr (\<lparr>password = ''A00!aaaa''\<rparr>, sconst 0))"
proof -
  define g where "g = \<lparr>this_mode = Random, this_length = Fin 8,
          this_charset = LOWER @ UPPER @ DIGITS @ SPECIAL, this_isSpecial = True,
          this_options = length_8_minDigit_2\<rparr>"
  have ex: "\<not> default_to False (excludeSimilar (this_options g))"
    by (simp add: g_def length_8_minDigit_2_def no_options_def default_to_def)
  have p1: "pick g LOWER (sconst 0) = Some (Inr (Some CHR ''a'', sconst 0))"
    using pick_sconst_plain [OF ex, of LOWER 0] by (simp add: category_lengths first_characters)
  have p2: "pick g UPPER (sconst 0) = Some (Inr (Some CHR ''A'', sconst 0))"
    using pick_sconst_plain [OF ex, of UPPER 0] by (simp add: category_lengths first_characters)
  have p3: "pick g DIGITS (sconst 0) = Some (Inr (Some CHR ''0'', sconst 0))"
    using pick_sconst_plain [OF ex, of DIGITS 0] by (simp add: category_lengths first_characters)
  have p4: "pick g SPECIAL (sconst 0) = Some (Inr (Some CHR ''!'', sconst 0))"
    using pick_sconst_plain [OF ex, of SPECIAL 0] by (simp add: category_lengths first_characters)
  have p5: "pick g (this_charset g) (sconst 0) = Some (Inr (Some CHR ''a'', sconst 0))"
    using pick_sconst_plain [OF ex, of "LOWER @ UPPER @ DIGITS @ SPECIAL" 0]
    by (simp add: g_def category_lengths first_characters del: length_append)
  have mins: "actualMin (this_options g) None = Fin 1"
    "actualMin (this_options g) (Some (Fin 2)) = Fin 2"
    by (simp_all add: g_def actualMin_def length_8_minDigit_2_def no_options_def truthy_def
        default_to_def)
  have o: "minLower (this_options g) = None" "minUpper (this_options g) = None"
    "minDigit (this_options g) = Some (Fin 2)" "minSpecial (this_options g) = None"
    by (simp_all add: g_def length_8_minDigit_2_def no_options_def)
  have m: "this_mode g = Random" and l: "this_length g = Fin 8" by (simp_all add: g_def)
  have "generateFull dw g (sconst 0) = Some (Inr (\<lparr>password = ''A00!aaaa''\<rparr>, sconst 0))"
    unfolding generateFull_def generateRandom_def Let_def o mins m l
    by (simp add: push_loop_sconst [OF p1] push_loop_sconst [OF p2] push_loop_sconst [OF p3]
        push_loop_sconst [OF p4] push_loop_sconst [OF p5] and_then_return js_gt_def
        replicate_numeral_Cons shuffle_8_sconst_0 join_chars_def)
  then show ?thesis by (simp only: g_def)
qed

lemma minimums_are_met_example:
  "PasswordGenerator_new length_8_minDigit_2 =
       Inr \<lparr>this_mode = Random, this_length = Fin 8,
            this_charset = LOWER @ UPPER @ DIGITS @ SPECIAL, this_isSpecial = True,
            this_options = length_8_minDigit_2\<rparr>
   \<and> generateFull [] \<lparr>this_mode = Random, this_length = Fin 8,
            this_charset = LOWER @ UPPER @ DIGITS @ SPECIAL, this_isSpecial = True,
            this_options = length_8_minDigit_2\<rparr> (sconst 0)
       = Some (Inr (\<lparr>password = ''A00!aaaa''\<rparr>, sconst 0))
   \<and> minDigit length_8_minDigit_2 = Some (Fin 2) \<and> minLower length_8_minDigit_2 = None
   \<and> meets_minimum LOWER (Fin 1) ''A00!aaaa'' \<and> meets_minimum UPPER (Fin 1) ''A00!aaaa''
   \<and> meets_minimum DIGITS (Fin 2) ''A00!aaaa'' \<and> meets_minimum SPECIAL (Fin 1) ''A00!aaaa''"
proof -
  have mins: "actualMin length_8_minDigit_2 None = Fin 1"
    "actualMin length_8_minDigit_2 (Some (Fin 2)) = Fin 2"
    by (simp_all add: actualMin_def length_8_minDigit_2_def no_options_def truthy_def
        default_to_def)
  have o: "minLower length_8_minDigit_2 = None" "minUpper length_8_minDigit_2 = None"
    "minDigit length_8_minDigit_2 = Some (Fin 2)" "minSpecial length_8_minDigit_2 = None"
    by (simp_all add: length_8_minDigit_2_def no_options_def)
  show ?thesis
    using minimums_are_met [OF length_8_minDigit_2_new _ length_8_minDigit_2_run [of "[]"]]
      length_8_minDigit_2_new length_8_minDigit_2_run [of "[]"]
    by (simp add: o mins)
qed

text \<open>
  C4 fails on the code for a minimum that is \<^verbatim>\<open>NaN\<close>, which nothing validates:
  \<^verbatim>\<open>Math.max(NaN, 1)\<close> is \<^verbatim>\<open>NaN\<close>, the test \<^verbatim>\<open>i < NaN\<close> is false and the loop of that category
  does not run, so the minimum is not raised to 1. With length 8, the default alphabet,
  special characters enabled and \<open>minLower = NaN\<close>, the bytes 26, 26, ... give the
  password \<open>AAAA6AA<\<close>, in which no character is a lowercase letter.
\<close>

theorem NaN_minimum_not_raised:
  "static_generateFull [] length_8_minLower_NaN (sconst 26)
     = Some (Inr (\<lparr>password = ''AAAA6AA<''\<rparr>, sconst 26))
   \<and> count_in LOWER ''AAAA6AA<'' = 0
   \<and> customCharset length_8_minLower_NaN = None \<and> isSpecial length_8_minLower_NaN = None"
proof -
  define g where "g = \<lparr>this_mode = Random, this_length = Fin 8,
          this_charset = LOWER @ UPPER @ DIGITS @ SPECIAL, this_isSpecial = True,
          this_options = length_8_minLower_NaN\<rparr>"
  have new: "PasswordGenerator_new length_8_minLower_NaN = Inr g"
    by (simp add: g_def length_8_minLower_NaN_def ctor_defs)
  have ex: "\<not> default_to False (excludeSimilar (this_options g))"
    by (simp add: g_def length_8_minLower_NaN_def no_options_def default_to_def)
  have p1: "push_loop 0 NaN g LOWER [] (sconst 26) = Some (Inr ([], sconst 26))"
    by (simp add: push_loop_def)
  have p2: "pick g UPPER (sconst 26) = Some (Inr (Some CHR ''A'', sconst 26))"
    using pick_sconst_plain [OF ex, of UPPER 26] by (simp add: category_lengths characters_at_26)
  have p3: "pick g DIGITS (sconst 26) = Some (Inr (Some CHR ''6'', sconst 26))"
    using pick_sconst_plain [OF ex, of DIGITS 26] by (simp add: category_lengths characters_at_26)
  have p4: "pick g SPECIAL (sconst 26) = Some (Inr (Some CHR ''<'', sconst 26))"
    using pick_sconst_plain [OF ex, of SPECIAL 26] by (simp add: category_lengths characters_at_26)
  have p5: "pick g (this_charset g) (sconst 26) = Some (Inr (Some CHR ''A'', sconst 26))"
    using pick_sconst_plain [OF ex, of "LOWER @ UPPER @ DIGITS @ SPECIAL" 26]
    by (simp add: g_def category_lengths characters_at_26 del: length_append)
  have mins: "actualMin (this_options g) None = Fin 1"
    "actualMin (this_options g) (Some NaN) = NaN"
    by (simp_all add: g_def actualMin_def length_8_minLower_NaN_def no_options_def truthy_def
        default_to_def)
  have o: "minLower (this_options g) = Some NaN" "minUpper (this_options g) = None"
    "minDigit (this_options g) = None" "minSpecial (this_options g) = None"
    by (simp_all add: g_def length_8_minLower_NaN_def no_options_def)
  have m: "this_mode g = Random" and l: "this_length g = Fin 8" by (simp_all add: g_def)
  have "generateFull [] g (sconst 26) = Some (Inr (\<lparr>password = ''AAAA6AA<''\<rparr>, sconst 26))"
    unfolding generateFull_def generateRandom_def Let_def o mins m l
    by (simp add: p1 push_loop_sconst [OF p2] push_loop_sconst [OF p3]
        push_loop_sconst [OF p4] push_loop_sconst [OF p5] and_then_return js_gt_def
        replicate_numeral_Cons shuffle_8_sconst_26 join_chars_def)
  then show ?thesis
    by (simp add: static_generateFull_def new count_in_def LOWER_def)
      (simp add: length_8_minLower_NaN_def no_options_def)
qed

section \<open>Where the errors are raised\<close>

lemma new_errors:
  "PasswordGenerator_new opts = Inl e \<Longrightarrow>
     e = InvalidLength \<or> e = EmptyCharsetAfterExclusion \<or> e = InvalidPassphraseLength"
  by (auto simp: PasswordGenerator_new_def Let_def baseCharset_def truthy_def
      split: if_splits sum.splits option.splits)

lemma and_then_Inl_step:
  "and_then r f = Some (Inl e) \<Longrightarrow> r \<noteq> Some (Inl e) \<Longrightarrow>
     \<exists>a s. r = Some (Inr (a, s)) \<and> f a s = Some (Inl e)"
  by (auto simp: and_then_Inl)

lemma required_count_stages:
  "loop_count 0 (actualMin (this_options g) (minLower (this_options g))) = Some k1 \<Longrightarrow>
   loop_count 0 (actualMin (this_options g) (minUpper (this_options g))) = Some k2 \<Longrightarrow>
   loop_count 0 (actualMin (this_options g) (minDigit (this_options g))) = Some k3 \<Longrightarrow>
   loop_count 0 (actualMin (this_options g) (minSpecial (this_options g))) = Some k4 \<Longrightarrow>
   required_count g = Some (k1 + k2 + k3 + k4)"
  by (simp add: required_count_def Let_def)

lemma generateRandom_error:
  assumes err: "generateRandom g s = Some (Inl e)"
    and len: "this_length g = Fin (of_nat n)" and cs: "this_charset g \<noteq> []"
  shows "e = MinimumsExceedLength \<and> (\<exists>k. required_count g = Some k \<and> n < k)"
proof -
  let ?o = "this_options g"
  note ne = push_loop_no_error [OF fixed_categories(1)] push_loop_no_error [OF fixed_categories(2)]
    push_loop_no_error [OF fixed_categories(3)] push_loop_no_error [OF fixed_categories(4)]
    push_loop_no_error [OF cs] shuffle_no_error
  from and_then_Inl_step [OF err [unfolded generateRandom_def Let_def] ne(1)]
  obtain r1 s1 where
    p1: "push_loop 0 (actualMin ?o (minLower ?o)) g LOWER [] s = Some (Inr (r1, s1))" and
    e1: "and_then (push_loop 0 (actualMin ?o (minUpper ?o)) g UPPER r1 s1) (\<lambda>r2 s2.
      and_then (push_loop 0 (actualMin ?o (minDigit ?o)) g DIGITS r2 s2) (\<lambda>r3 s3.
      and_then (push_loop 0 (actualMin ?o (minSpecial ?o)) g SPECIAL r3 s3) (\<lambda>requiredChars s4.
        if js_gt (Fin (of_nat (length requiredChars))) (this_length g)
        then Some (Inl MinimumsExceedLength)
        else
          and_then (push_loop (length requiredChars) (this_length g) g (this_charset g)
                      requiredChars s4) (\<lambda>filled s5.
          and_then (shuffle filled s5) (\<lambda>shuffled s6.
            Some (Inr (\<lparr>password = join_chars shuffled\<rparr>, s6))))))) = Some (Inl e)"
    by blast
  from and_then_Inl_step [OF e1 ne(2)] obtain r2 s2 where
    p2: "push_loop 0 (actualMin ?o (minUpper ?o)) g UPPER r1 s1 = Some (Inr (r2, s2))" and
    e2: "and_then (push_loop 0 (actualMin ?o (minDigit ?o)) g DIGITS r2 s2) (\<lambda>r3 s3.
      and_then (push_loop 0 (actualMin ?o (minSpecial ?o)) g SPECIAL r3 s3) (\<lambda>requiredChars s4.
        if js_gt (Fin (of_nat (length requiredChars))) (this_length g)
        then Some (Inl MinimumsExceedLength)
        else
          and_then (push_loop (length requiredChars) (this_length g) g (this_charset g)
                      requiredChars s4) (\<lambda>filled s5.
          and_then (shuffle filled s5) (\<lambda>shuffled s6.
            Some (Inr (\<lparr>password = join_chars shuffled\<rparr>, s6)))))) = Some (Inl e)"
    by blast
  from and_then_Inl_step [OF e2 ne(3)] obtain r3 s3 where
    p3: "push_loop 0 (actualMin ?o (minDigit ?o)) g DIGITS r2 s2 = Some (Inr (r3, s3))" and
    e3: "and_then (push_loop 0 (actualMin ?o (minSpecial ?o)) g SPECIAL r3 s3) (\<lambda>requiredChars s4.
        if js_gt (Fin (of_nat (length requiredChars))) (this_length g)
        then Some (Inl MinimumsExceedLength)
        else
          and_then (push_loop (length requiredChars) (this_length g) g (this_charset g)
                      requiredChars s4) (\<lambda>filled s5.
          and_then (shuffle filled s5) (\<lambda>shuffled s6.
            Some (Inr (\<lparr>password = join_chars shuffled\<rparr>, s6))))) = Some (Inl e)"
    by blast
  from and_then_Inl_step [OF e3 ne(4)] obtain r4 s4 where
    p4: "push_loop 0 (actualMin ?o (minSpecial ?o)) g SPECIAL r3 s3 = Some (Inr (r4, s4))" and
    tail: "(if js_gt (Fin (of_nat (length r4))) (this_length g)
        then Some (Inl MinimumsExceedLength)
        else
          and_then (push_loop (length r4) (this_length g) g (this_charset g) r4 s4)
            (\<lambda>filled s5. and_then (shuffle filled s5) (\<lambda>shuffled s6.
               Some (Inr (\<lparr>password = join_chars shuffled\<rparr>, s6))))) = Some (Inl e)"
    by blast
  have e: "e = MinimumsExceedLength" and over: "n < length r4"
  proof -
    have "e = MinimumsExceedLength \<and> n < length r4"
    proof (cases "js_gt (Fin (of_nat (length r4))) (this_length g)")
      case True
      with tail show ?thesis by (simp add: len js_gt_nat)
    next
      case False
      with tail have t: "and_then (push_loop (length r4) (this_length g) g (this_charset g) r4 s4)
            (\<lambda>filled s5. and_then (shuffle filled s5) (\<lambda>shuffled s6.
               Some (Inr (\<lparr>password = join_chars shuffled\<rparr>, s6)))) = Some (Inl e)"
        by simp
      from and_then_Inl_step [OF t ne(5)] obtain filled s5 where
        "and_then (shuffle filled s5) (\<lambda>shuffled s6.
               Some (Inr (\<lparr>password = join_chars shuffled\<rparr>, s6))) = Some (Inl e)"
        by blast
      from and_then_Inl_step [OF this shuffle_no_error] show ?thesis by simp
    qed
    then show "e = MinimumsExceedLength" and "n < length r4" by simp_all
  qed
  from push_loop_result [OF p1] obtain k1 where 1:
    "loop_count 0 (actualMin ?o (minLower ?o)) = Some k1" "length r1 = k1" by auto
  from push_loop_result [OF p2] obtain k2 where 2:
    "loop_count 0 (actualMin ?o (minUpper ?o)) = Some k2" "length r2 = length r1 + k2" by auto
  from push_loop_result [OF p3] obtain k3 where 3:
    "loop_count 0 (actualMin ?o (minDigit ?o)) = Some k3" "length r3 = length r2 + k3" by auto
  from push_loop_result [OF p4] obtain k4 where 4:
    "loop_count 0 (actualMin ?o (minSpecial ?o)) = Some k4" "length r4 = length r3 + k4" by auto
  have "required_count g = Some (k1 + k2 + k3 + k4)"
    using 1(1) 2(1) 3(1) 4(1) by (rule required_count_stages)
  moreover have "n < k1 + k2 + k3 + k4" using over 1(2) 2(2) 3(2) 4(2) by simp
  ultimately show ?thesis using e by blast
qed

lemma generateRandom_fits:
  assumes res: "generateRandom g s = Some (Inr (r, s'))"
    and len: "this_length g = Fin (of_nat n)"
  shows "\<exists>k. required_count g = Some k \<and> k \<le> n"
proof -
  let ?o = "this_options g"
  obtain k1 k2 k3 k4 l u d sp rest s5 shuffled where st:
    "loop_count 0 (actualMin ?o (minLower ?o)) = Some k1"
    "loop_count 0 (actualMin ?o (minUpper ?o)) = Some k2"
    "loop_count 0 (actualMin ?o (minDigit ?o)) = Some k3"
    "loop_count 0 (actualMin ?o (minSpecial ?o)) = Some k4"
    "length l = k1" "length u = k2" "length d = k3" "length sp = k4"
    "\<forall>c\<in>set l. picked g LOWER c" "\<forall>c\<in>set u. picked g UPPER c"
    "\<forall>c\<in>set d. picked g DIGITS c" "\<forall>c\<in>set sp. picked g SPECIAL c"
    "\<forall>c\<in>set rest. picked g (this_charset g) c"
    "k1 + k2 + k3 + k4 \<le> n" "length rest = n - (k1 + k2 + k3 + k4)"
    "shuffle (l @ u @ d @ sp @ rest) s5 = Some (Inr (shuffled, s'))"
    "password r = join_chars shuffled"
    by (rule generateRandom_stages [OF res len])
  from required_count_stages [OF st(1-4)] st(14) show ?thesis by blast
qed

lemma push_words_no_error:
  "wl \<noteq> [] \<Longrightarrow> push_words k wl acc s \<noteq> Some (Inl e)"
  by (induction k arbitrary: acc s) (auto simp: and_then_Inl getRandomInt_no_error)

lemma generatePassphrase_no_error:
  "getWordlist dw g \<noteq> [] \<Longrightarrow> generatePassphrase dw g s \<noteq> Some (Inl e)"
  by (auto simp: generatePassphrase_def Let_def and_then_Inl push_words_no_error
      split: option.splits)

lemma length_8_minimums_3_new:
  "PasswordGenerator_new length_8_minimums_3 =
     Inr \<lparr>this_mode = Random, this_length = Fin 8,
          this_charset = LOWER @ UPPER @ DIGITS @ SPECIAL, this_isSpecial = True,
          this_options = length_8_minimums_3\<rparr>"
  by (simp add: length_8_minimums_3_def ctor_defs)

lemma length_8_minimums_3_run:
  "generateFull dw \<lparr>this_mode = Random, this_length = Fin 8,
          this_charset = LOWER @ UPPER @ DIGITS @ SPECIAL, this_isSpecial = True,
          this_options = length_8_minimums_3\<rparr> (sconst 0)
   = Some (Inl MinimumsExceedLength)"
proof -
  define g where "g = \<lparr>this_mode = Random, this_length = Fin 8,
          this_charset = LOWER @ UPPER @ DIGITS @ SPECIAL, this_isSpecial = True,
          this_options = length_8_minimums_3\<rparr>"
  have ex: "\<not> default_to False (excludeSimilar (this_options g))"
    by (simp add: g_def length_8_minimums_3_def no_options_def default_to_def)
  have p1: "pick g LOWER (sconst 0) = Some (Inr (Some CHR ''a'', sconst 0))"
    using pick_sconst_plain [OF ex, of LOWER 0] by (simp add: category_lengths first_characters)
  have p2: "pick g UPPER (sconst 0) = Some (Inr (Some CHR ''A'', sconst 0))"
    using pick_sconst_plain [OF ex, of UPPER 0] by (simp add: category_lengths first_characters)
  have p3: "pick g DIGITS (sconst 0) = Some (Inr (Some CHR ''0'', sconst 0))"
    using pick_sconst_plain [OF ex, of DIGITS 0] by (simp add: category_lengths first_characters)
  have p4: "pick g SPECIAL (sconst 0) = Some (Inr (Some CHR ''!'', sconst 0))"
    using pick_sconst_plain [OF ex, of SPECIAL 0] by (simp add: category_lengths first_characters)
  have mins: "actualMin (this_options g) (Some (Fin 3)) = Fin 3"
    by (simp add: g_def actualMin_def length_8_minimums_3_def no_options_def truthy_def
        default_to_def)
  have o: "minLower (this_options g) = Some (Fin 3)" "minUpper (this_options g) = Some (Fin 3)"
    "minDigit (this_options g) = Some (Fin 3)" "minSpecial (this_options g) = Some (Fin 3)"
    by (simp_all add: g_def length_8_minimums_3_def no_options_def)
  have m: "this_mode g = Random" and l: "this_length g = Fin 8" by (simp_all add: g_def)
  have "generateFull dw g (sconst 0) = Some (Inl MinimumsExceedLength)"
    unfolding generateFull_def generateRandom_def Let_def o mins m l
    by (simp add: push_loop_sconst [OF p1] push_loop_sconst [OF p2] push_loop_sconst [OF p3]
        push_loop_sconst [OF p4] and_then_return js_gt_def)
  then show ?thesis by (simp add: g_def)
qed

lemma empty_separator_run:
  "generateFull [] \<lparr>this_mode = Passphrase, this_length = Fin 3, this_charset = [],
          this_isSpecial = False, this_options = empty_separator\<rparr> (sconst 0)
     = Some (Inr (\<lparr>password = ''ab-ab-ab''\<rparr>, sconst 0))"
proof -
  have w: "wordlist empty_separator = Some [''ab'', ''cd'']"
    "separator empty_separator = Some []"
    by (simp_all add: empty_separator_def no_options_def)
  have "getRandomInt 0 2 (sconst 0) = Some (Inr (0, sconst 0))"
    using getRandomInt_sconst [of 2 0] by simp
  then have d: "getRandomInt 0 (Suc (Suc 0)) (sconst 0) = Some (Inr (0, sconst 0))"
    by (simp add: numeral_2_eq_2)
  have "push_words (Suc (Suc (Suc 0))) [''ab'', ''cd''] [] (sconst 0)
     = Some (Inr ([Some ''ab'', Some ''ab'', Some ''ab''], sconst 0))"
    by (simp add: d and_then_def js_at_def)
  then have p3: "push_words 3 [''ab'', ''cd''] [] (sconst 0)
     = Some (Inr ([Some ''ab'', Some ''ab'', Some ''ab''], sconst 0))"
    by (simp only: numeral_3_eq_3)
  show ?thesis
    by (simp add: generateFull_def generatePassphrase_def getWordlist_def w truthy_def p3
        and_then_return)
qed

text \<open>
  C2, as the claim states it, fails: with length 8 and the four minimums 3 the constructor
  succeeds, and \<open>MinimumsExceedLength\<close> is thrown by \<^verbatim>\<open>generateFull\<close>, after twelve
  characters have been drawn.
\<close>

theorem minimums_error_thrown_by_sampling:
  "PasswordGenerator_new length_8_minimums_3 =
     Inr \<lparr>this_mode = Random, this_length = Fin 8,
          this_charset = LOWER @ UPPER @ DIGITS @ SPECIAL, this_isSpecial = True,
          this_options = length_8_minimums_3\<rparr>
   \<and> generateFull [] \<lparr>this_mode = Random, this_length = Fin 8,
          this_charset = LOWER @ UPPER @ DIGITS @ SPECIAL, this_isSpecial = True,
          this_options = length_8_minimums_3\<rparr> (sconst 0)
     = Some (Inl MinimumsExceedLength)"
  using length_8_minimums_3_new length_8_minimums_3_run [of "[]"] by simp

text \<open>
  C2, amended: the constructor raises \<open>InvalidLength\<close>, \<open>EmptyCharsetAfterExclusion\<close>
  and \<open>InvalidPassphraseLength\<close> and no other error, so never \<open>MinimumsExceedLength\<close>.
  On a generator whose construction succeeded, sampling in random mode raises
  \<open>MinimumsExceedLength\<close> and no other error, and raises it only when the number of
  guaranteed characters exceeds the length; when it returns a password that number is at
  most the length. Sampling in passphrase mode raises no error when the word source is not
  empty.
\<close>

theorem errors_by_stage:
  assumes new: "PasswordGenerator_new opts = Inr g"
  shows "(\<forall>opts' e'. PasswordGenerator_new opts' = Inl e' \<longrightarrow>
            e' = InvalidLength \<or> e' = EmptyCharsetAfterExclusion \<or> e' = InvalidPassphraseLength)
       \<and> (this_mode g = Random \<longrightarrow> generateFull dw g s = Some (Inl e) \<longrightarrow>
            e = MinimumsExceedLength
            \<and> (\<exists>k. required_count g = Some k \<and> js_gt (Fin (of_nat k)) (this_length g)))
       \<and> (this_mode g = Random \<longrightarrow> generateFull dw g s = Some (Inr (r, s')) \<longrightarrow>
            (\<exists>k. required_count g = Some k \<and> \<not> js_gt (Fin (of_nat k)) (this_length g)))
       \<and> (this_mode g = Passphrase \<longrightarrow> getWordlist dw g \<noteq> [] \<longrightarrow>
            generateFull dw g s \<noteq> Some (Inl e))"
proof (intro conjI allI impI)
  fix opts' e' assume "PasswordGenerator_new opts' = Inl e'"
  then show "e' = InvalidLength \<or> e' = EmptyCharsetAfterExclusion \<or> e' = InvalidPassphraseLength"
    by (rule new_errors)
next
  assume m: "this_mode g = Random" and err: "generateFull dw g s = Some (Inl e)"
  from new_random(1) [OF new m] obtain n where n: "this_length g = Fin (of_nat n)" by blast
  from err m have "generateRandom g s = Some (Inl e)" by (simp add: generateFull_def)
  from generateRandom_error [OF this n new_random(2) [OF new m]]
  show "e = MinimumsExceedLength" 
    and "\<exists>k. required_count g = Some k \<and> js_gt (Fin (of_nat k)) (this_length g)"
    by (auto simp: n js_gt_nat)
next
  assume m: "this_mode g = Random" and res: "generateFull dw g s = Some (Inr (r, s'))"
  from new_random(1) [OF new m] obtain n where n: "this_length g = Fin (of_nat n)" by blast
  from res m have "generateRandom g s = Some (Inr (r, s'))" by (simp add: generateFull_def)
  from generateRandom_fits [OF this n]
  show "\<exists>k. required_count g = Some k \<and> \<not> js_gt (Fin (of_nat k)) (this_length g)"
    by (auto simp: n js_gt_nat)
next
  assume "this_mode g = Passphrase" and "getWordlist dw g \<noteq> []"
  then show "generateFull dw g s \<noteq> Some (Inl e)"
    by (simp add: generateFull_def generatePassphrase_no_error)
qed

theorem errors_by_stage_witness:
  "PasswordGenerator_new length_7 = Inl InvalidLength
   \<and> PasswordGenerator_new length_8_minimums_3 =
       Inr \<lparr>this_mode = Random, this_length = Fin 8,
            this_charset = LOWER @ UPPER @ DIGITS @ SPECIAL, this_isSpecial = True,
            this_options = length_8_minimums_3\<rparr>
   \<and> generateFull [] \<lparr>this_mode = Random, this_length = Fin 8,
            this_charset = LOWER @ UPPER @ DIGITS @ SPECIAL, this_isSpecial = True,
            this_options = length_8_minimums_3\<rparr> (sconst 0)
       = Some (Inl MinimumsExceedLength)
   \<and> (\<exists>k. required_count \<lparr>this_mode = Random, this_length = Fin 8,
            this_charset = LOWER @ UPPER @ DIGITS @ SPECIAL, this_isSpecial = True,
            this_options = length_8_minimums_3\<rparr> = Some k \<and> js_gt (Fin (of_nat k)) (Fin 8))
   \<and> PasswordGenerator_new length_8 =
       Inr \<lparr>this_mode = Random, this_length = Fin 8,
            this_charset = LOWER @ UPPER @ DIGITS @ SPECIAL, this_isSpecial = True,
            this_options = length_8\<rparr>
   \<and> generateFull [] \<lparr>this_mode = Random, this_length = Fin 8,
            this_charset = LOWER @ UPPER @ DIGITS @ SPECIAL, this_isSpecial = True,
            this_options = length_8\<rparr> (sconst 0)
       = Some (Inr (\<lparr>password = ''A0!aaaaa''\<rparr>, sconst 0))
   \<and> (\<exists>k. required_count \<lparr>this_mode = Random, this_length = Fin 8,
            this_charset = LOWER @ UPPER @ DIGITS @ SPECIAL, this_isSpecial = True,
            this_options = length_8\<rparr> = Some k \<and> \<not> js_gt (Fin (of_nat k)) (Fin 8))
   \<and> PasswordGenerator_new empty_separator =
       Inr \<lparr>this_mode = Passphrase, this_length = Fin 3, this_charset = [],
            this_isSpecial = False, this_options = empty_separator\<rparr>
   \<and> getWordlist [] \<lparr>this_mode = Passphrase, this_length = Fin 3, this_charset = [],
            this_isSpecial = False, this_options = empty_separator\<rparr> \<noteq> []
   \<and> generateFull [] \<lparr>this_mode = Passphrase, this_length = Fin 3, this_charset = [],
            this_isSpecial = False, this_options = empty_separator\<rparr> (sconst 0)
       \<noteq> Some (Inl RangeError)"
proof -
  have c: "PasswordGenerator_new length_7 = Inl InvalidLength"
    by (simp add: length_7_def ctor_defs)
  have w: "getWordlist [] \<lparr>this_mode = Passphrase, this_length = Fin 3, this_charset = [],
            this_isSpecial = False, this_options = empty_separator\<rparr> \<noteq> []"
    by (simp add: getWordlist_def empty_separator_def no_options_def)
  note a = errors_by_stage [OF length_8_minimums_3_new, of "[]" "sconst 0" MinimumsExceedLength]
  note b = errors_by_stage [OF length_8_new, of "[]" "sconst 0" _ "\<lparr>password = ''A0!aaaaa''\<rparr>"
      "sconst 0"]
  note d = errors_by_stage [OF empty_separator_new, of "[]" "sconst 0" RangeError]
  have 1: "\<exists>k. required_count \<lparr>this_mode = Random, this_length = Fin 8,
            this_charset = LOWER @ UPPER @ DIGITS @ SPECIAL, this_isSpecial = True,
            this_options = length_8_minimums_3\<rparr> = Some k \<and> js_gt (Fin (of_nat k)) (Fin 8)"
    using a length_8_minimums_3_run [of "[]"] by simp
  have 2: "\<exists>k. required_count \<lparr>this_mode = Random, this_length = Fin 8,
            this_charset = LOWER @ UPPER @ DIGITS @ SPECIAL, this_isSpecial = True,
            this_options = length_8\<rparr> = Some k \<and> \<not> js_gt (Fin (of_nat k)) (Fin 8)"
    using b length_8_run [of "[]"] by simp
  have 3: "generateFull [] \<lparr>this_mode = Passphrase, this_length = Fin 3, this_charset = [],
            this_isSpecial = False, this_options = empty_separator\<rparr> (sconst 0)
       \<noteq> Some (Inl RangeError)"
    using d w by simp
  show ?thesis
    using c length_8_minimums_3_new length_8_minimums_3_run [of "[]"] 1 length_8_new
      length_8_run [of "[]"] 2 empty_separator_new w 3
    by blast
qed

text \<open>
  Nothing above says that sampling returns: the loop of the draw has no bound, and on the
  stream of bytes 255 a draw of range 3 rejects every byte.
\<close>

lemma draw_never_returns_on_ones: "getRandomInt 0 3 (sconst 255) = None"
proof -
  have n: "bytesNeeded 3 = 1" by (simp add: bytesNeeded_byte)
  have "chunk 1 k (sconst 255) = [255 :: byte]" for k
    by (simp add: chunk_def map_replicate_const)
  then have "\<forall>k. \<not> read_val (chunk 1 k (sconst 255)) < 256 ^ 1 - js_rem (256 ^ 1) 3"
    by (simp add: read_val_single js_rem_def)
  then have "getRandomInt_loop 0 3 1 (256 ^ 1) (sconst 255) = None"
    by (rule iffD2 [OF loop_None_iff])
  then show ?thesis using getRandomInt_unfold [of 3 "sconst 255"] by (simp add: n)
qed

section \<open>Streams on which sampling returns\<close>

lemma stake_sdrop_sets: "set (stake n s) \<union> sset (sdrop n s) = sset s"
  using sset_shift [of "stake n s" "sdrop n s"] by (simp add: stake_sdrop)

lemma low_bytes_sdrop: "low_bytes s \<Longrightarrow> low_bytes (sdrop n s)"
  using stake_sdrop_sets [of n s] by (auto simp: low_bytes_def)

lemma low_bytes_stake: "low_bytes s \<Longrightarrow> \<forall>b\<in>set (stake n s). unat b < 128"
  using stake_sdrop_sets [of n s] by (auto simp: low_bytes_def)

lemma low_bytes_sconst: "low_bytes (sconst 0)"
  by (simp add: low_bytes_def)

lemma be_nat_low:
  "bs \<noteq> [] \<Longrightarrow> \<forall>b\<in>set bs. unat b < 128 \<Longrightarrow> be_nat bs < 128 * 256 ^ (length bs - 1)"
proof (induction bs rule: rev_induct)
  case Nil
  then show ?case by simp
next
  case (snoc b bs)
  have b: "unat b < 128" using snoc.prems(2) by simp
  show ?case
  proof (cases "bs = []")
    case True
    with b show ?thesis by (simp add: be_nat_def)
  next
    case False
    then obtain m where m: "length bs = Suc m" by (cases bs) auto
    have "be_nat bs < 128 * 256 ^ m" using snoc.IH [OF False] snoc.prems(2) m by simp
    then have "be_nat bs + 1 \<le> 128 * 256 ^ m" by simp
    then have "256 * (be_nat bs + 1) \<le> 256 * (128 * 256 ^ m)" by (rule mult_le_mono2)
    with b show ?thesis by (simp add: be_nat_snoc m)
  qed
qed

lemma limit_above_half:
  fixes r M :: nat
  assumes "0 < r" and "r \<le> M"
  shows "M < 2 * ((M div r) * r)"
proof -
  have "1 \<le> M div r" using assms by (simp add: div_greater_zero_iff Suc_leI)
  then have "r \<le> (M div r) * r" by simp
  moreover have "M mod r < r" using assms(1) by simp
  moreover have "M = (M div r) * r + M mod r" by simp
  ultimately show ?thesis by linarith
qed

lemma getRandomInt_returns:
  assumes low: "low_bytes s" and r: "0 < r" and small: "r \<le> 2 ^ 24"
  shows "\<exists>v. getRandomInt 0 r s = Some (Inr (v, sdrop (bytesNeeded r) s))"
proof -
  let ?n = "bytesNeeded r"
  let ?bs = "stake ?n s"
  have rn: "r \<le> 256 ^ ?n" using bytesNeeded_minimal [OF r] by simp
  have "be_nat ?bs < (256 ^ ?n div r) * r"
  proof (cases "?n = 0")
    case True
    with rn r have "r = 1" by simp
    with True show ?thesis by (simp add: be_nat_def)
  next
    case False
    then obtain m where m: "?n = Suc m" by (cases ?n) auto
    have "?bs \<noteq> []" using False by simp
    from be_nat_low [OF this low_bytes_stake [OF low]]
    have "be_nat ?bs < 128 * 256 ^ m" by (simp add: m)
    then have "2 * be_nat ?bs < 256 ^ ?n" by (simp add: m)
    also have "\<dots> < 2 * ((256 ^ ?n div r) * r)" using r rn by (rule limit_above_half)
    finally show ?thesis by simp
  qed
  then show ?thesis by (simp add: getRandomInt_step [OF r small])
qed

lemma pick_returns:
  assumes "low_bytes s" and "source \<noteq> []" and "length source \<le> 2 ^ 24"
  shows "\<exists>c s'. pick g source s = Some (Inr (c, s')) \<and> low_bytes s'"
proof -
  have "\<exists>c s'. and_then (getRandomInt 0 (length src) s) (\<lambda>i s'. Some (Inr (js_at src i, s')))
      = Some (Inr (c, s')) \<and> low_bytes s'"
    if "src \<noteq> []" "length src \<le> length source" for src :: string
  proof -
    from that assms(3) have "0 < length src" "length src \<le> 2 ^ 24" by simp_all
    from getRandomInt_returns [OF assms(1) this] obtain v where
      "getRandomInt 0 (length src) s = Some (Inr (v, sdrop (bytesNeeded (length src)) s))" ..
    then show ?thesis
      using low_bytes_sdrop [OF assms(1)] by (auto simp: and_then_return)
  qed
  from this [of source] this [of "remove_similar source"] assms(2) length_remove_similar [of source]
  show ?thesis by (auto simp: pick_def Let_def)
qed

lemma push_picks_returns:
  "low_bytes s \<Longrightarrow> source \<noteq> [] \<Longrightarrow> length source \<le> 2 ^ 24 \<Longrightarrow>
     \<exists>out s'. push_picks k g source acc s = Some (Inr (out, s')) \<and> low_bytes s'"
proof (induction k arbitrary: acc s)
  case 0
  then show ?case by simp
next
  case (Suc k)
  from pick_returns [OF Suc.prems] obtain c s1 where
    "pick g source s = Some (Inr (c, s1))" "low_bytes s1" by blast
  with Suc.IH [OF _ Suc.prems(2,3), of s1 "acc @ [c]"] show ?case
    by (auto simp: and_then_return)
qed

lemma push_loop_returns:
  "low_bytes s \<Longrightarrow> source \<noteq> [] \<Longrightarrow> length source \<le> 2 ^ 24 \<Longrightarrow>
   loop_count start bound = Some k \<Longrightarrow>
     \<exists>out s'. push_loop start bound g source acc s = Some (Inr (out, s')) \<and> low_bytes s'"
  by (simp add: push_loop_def push_picks_returns)

lemma shuffle_from_returns:
  "low_bytes s \<Longrightarrow> i + 1 \<le> 2 ^ 24 \<Longrightarrow> \<exists>out s'. shuffle_from i xs s = Some (Inr (out, s'))"
proof (induction i arbitrary: xs s)
  case 0
  then show ?case by simp
next
  case (Suc i)
  from getRandomInt_returns [OF Suc.prems(1), of "Suc i + 1"] Suc.prems(2) obtain v where
    v: "getRandomInt 0 (Suc i + 1) s = Some (Inr (v, sdrop (bytesNeeded (Suc i + 1)) s))"
    by auto
  have "low_bytes (sdrop (bytesNeeded (Suc i + 1)) s)"
    using Suc.prems(1) by (rule low_bytes_sdrop)
  moreover have "i + 1 \<le> 2 ^ 24" using Suc.prems(2) by simp
  moreover have "shuffle_from (Suc i) xs s =
      shuffle_from i (js_swap xs (Suc i) v) (sdrop (bytesNeeded (Suc i + 1)) s)"
    by (simp only: shuffle_from.simps v and_then_return)
  ultimately show ?case using Suc.IH by simp
qed


lemma push_words_returns:
  "low_bytes s \<Longrightarrow> length wl \<le> 2 ^ 24 \<Longrightarrow> \<exists>res. push_words k wl acc s = Some res"
proof (induction k arbitrary: acc s)
  case 0
  then show ?case by simp
next
  case (Suc k)
  show ?case
  proof (cases "wl = []")
    case True
    then show ?thesis by (simp add: getRandomInt_zero and_then_def)
  next
    case False
    then have "0 < length wl" by simp
    from getRandomInt_returns [OF Suc.prems(1) this Suc.prems(2)] obtain v where
      "getRandomInt 0 (length wl) s = Some (Inr (v, sdrop (bytesNeeded (length wl)) s))" ..
    moreover have "low_bytes (sdrop (bytesNeeded (length wl)) s)"
      using Suc.prems(1) by (rule low_bytes_sdrop)
    ultimately show ?thesis using Suc.IH [OF _ Suc.prems(2)] by (simp add: and_then_return)
  qed
qed

lemma new_passphrase_length:
  "PasswordGenerator_new opts = Inr g \<Longrightarrow> this_mode g = Passphrase \<Longrightarrow>
     \<exists>k. loop_count 0 (this_length g) = Some k"
  by (cases "default_to (Fin 5) (length' (spread opts (preset_fields opts)))")
    (auto simp: PasswordGenerator_new_def Let_def js_gt_def split: if_splits sum.splits)

lemma generateRandom_returns:
  assumes low: "low_bytes s" and cs: "this_charset g \<noteq> []"
    and small: "length (this_charset g) \<le> 2 ^ 24"
    and len: "this_length g = Fin (of_nat n)" and n: "n \<le> 128"
    and rc: "required_count g \<noteq> None"
  shows "\<exists>res. generateRandom g s = Some res"
proof -
  let ?o = "this_options g"
  from rc obtain k1 k2 k3 k4 where k:
    "loop_count 0 (actualMin ?o (minLower ?o)) = Some k1"
    "loop_count 0 (actualMin ?o (minUpper ?o)) = Some k2"
    "loop_count 0 (actualMin ?o (minDigit ?o)) = Some k3"
    "loop_count 0 (actualMin ?o (minSpecial ?o)) = Some k4"
    by (auto simp: required_count_def Let_def split: option.splits)
  from push_loop_returns [OF low fixed_categories(1,9) k(1)] obtain r1 s1 where
    p1: "push_loop 0 (actualMin ?o (minLower ?o)) g LOWER [] s = Some (Inr (r1, s1))"
    and l1: "low_bytes s1" by blast
  from push_loop_returns [OF l1 fixed_categories(2,10) k(2)] obtain r2 s2 where
    p2: "push_loop 0 (actualMin ?o (minUpper ?o)) g UPPER r1 s1 = Some (Inr (r2, s2))"
    and l2: "low_bytes s2" by blast
  from push_loop_returns [OF l2 fixed_categories(3,11) k(3)] obtain r3 s3 where
    p3: "push_loop 0 (actualMin ?o (minDigit ?o)) g DIGITS r2 s2 = Some (Inr (r3, s3))"
    and l3: "low_bytes s3" by blast
  from push_loop_returns [OF l3 fixed_categories(4,12) k(4)] obtain r4 s4 where
    p4: "push_loop 0 (actualMin ?o (minSpecial ?o)) g SPECIAL r3 s3 = Some (Inr (r4, s4))"
    and l4: "low_bytes s4" by blast
  show ?thesis
  proof (cases "js_gt (Fin (of_nat (length r4))) (this_length g)")
    case True
    then show ?thesis
      by (simp add: generateRandom_def Let_def p1 p2 p3 p4 and_then_return)
  next
    case False
    then have fits: "length r4 \<le> n" by (simp add: len js_gt_nat)
    have "loop_count (length r4) (this_length g) = Some (n - length r4)"
      by (simp add: len)
    from push_loop_returns [OF l4 cs small this] obtain filled s5 where
      p5: "push_loop (length r4) (this_length g) g (this_charset g) r4 s4
             = Some (Inr (filled, s5))" and l5: "low_bytes s5" by blast
    from push_loop_result [OF p5] have "length filled = n" using fits by (auto simp: len)
    then have "length filled - 1 + 1 \<le> 2 ^ 24" using n by simp
    from shuffle_from_returns [OF l5 this] obtain out s6 where
      "shuffle filled s5 = Some (Inr (out, s6))" unfolding shuffle_def by blast
    with False show ?thesis
      by (simp add: generateRandom_def Let_def p1 p2 p3 p4 p5 and_then_return)
  qed
qed

text \<open>
  On a stream all of whose bytes are below 128 every draw of a range up to \<open>2 ^ 24\<close>
  accepts its first block, so sampling returns (a password or the error of the minimums),
  provided no minimum is infinite.
\<close>

lemma sampling_returns_on_low_bytes:
  assumes new: "PasswordGenerator_new opts = Inr g" and low: "low_bytes s"
    and cs: "length (this_charset g) \<le> 2 ^ 24" and wl: "length (getWordlist dw g) \<le> 2 ^ 24"
    and rc: "this_mode g = Random \<Longrightarrow> required_count g \<noteq> None"
  shows "\<exists>res. generateFull dw g s = Some res"
proof (cases "this_mode g")
  case Random
  from new_random(1) [OF new Random] obtain n where
    n: "this_length g = Fin (of_nat n)" "n \<le> 128" by blast
  from generateRandom_returns [OF low new_random(2) [OF new Random] cs n rc [OF Random]]
  show ?thesis using Random by (simp add: generateFull_def)
next
  case Passphrase
  from new_passphrase_length [OF new Passphrase] obtain k where
    "loop_count 0 (this_length g) = Some k" ..
  moreover from push_words_returns [OF low wl] obtain res where
    "push_words k (getWordlist dw g) [] s = Some res" ..
  ultimately show ?thesis
    using Passphrase
    by (cases res) (auto simp: generateFull_def generatePassphrase_def Let_def and_then_def
        split: sum.splits)
qed

section \<open>Entropy of a result\<close>

lemma round_to_hundredths_Finite: "round_to_hundredths (Finite x) = Finite (rounded_2 x)"
  by (simp add: rounded_2_def round_def)

lemma rounded_2_int: "rounded_2 (of_int k) = of_int k"
proof -
  have "round (real_of_int (k * 100)) = k * 100" by (rule round_of_int)
  then show ?thesis by (simp add: rounded_2_def)
qed

lemma log2_values: "log 2 2 = 1" "log 2 4 = 2"
proof -
  show "log 2 2 = 1" by simp
  have "log 2 (2 ^ 2) = real 2" by (rule log_pow_cancel) simp_all
  then show "log 2 4 = 2" by simp
qed

lemma spec_entropy_values:
  "spec_entropy 8 4 = 16" "spec_entropy 8 2 = 8" "spec_entropy 3 2 = 3" "spec_entropy 4 4 = 8"
  using rounded_2_int [of 16] rounded_2_int [of 8] rounded_2_int [of 3]
  by (simp_all add: spec_entropy_def log2_values)








text \<open>
  Outside the amended statement: a passphrase length that is a fraction passes the
  constructor, which floors the length in random mode only. For the length 3.5 four words
  are drawn and the entropy is \<open>3.5 * log2(4) = 7\<close>, not \<open>4 * log2(4) = 8\<close>. On an empty
  word source \<^verbatim>\<open>Math.log2(0)\<close> is \<^verbatim>\<open>-Infinity\<close>, and so is the entropy; for the length \<^verbatim>\<open>NaN\<close>
  the entropy is \<^verbatim>\<open>NaN\<close>.
\<close>

lemma entropy_of_fractional_word_count:
  "PasswordGenerator_new fractional_passphrase =
     Inr \<lparr>this_mode = Passphrase, this_length = Fin (7 / 2), this_charset = [],
          this_isSpecial = False, this_options = fractional_passphrase\<rparr>"
  "loop_count 0 (Fin (7 / 2)) = Some 4"
  "entropy_field [] \<lparr>this_mode = Passphrase, this_length = Fin (7 / 2), this_charset = [],
          this_isSpecial = False, this_options = fractional_passphrase\<rparr> = Finite 7"
  "spec_entropy 4 4 = 8"
proof -
  show "PasswordGenerator_new fractional_passphrase =
     Inr \<lparr>this_mode = Passphrase, this_length = Fin (7 / 2), this_charset = [],
          this_isSpecial = False, this_options = fractional_passphrase\<rparr>"
    by (simp add: fractional_passphrase_def ctor_defs)
  have "\<lceil>7 / 2 :: rat\<rceil> = 4" by (rule ceiling_unique) simp_all
  then show "loop_count 0 (Fin (7 / 2)) = Some 4" by simp
  have "rounded_2 (real_of_int 7) = real_of_int 7" by (rule rounded_2_int)
  then show "entropy_field [] \<lparr>this_mode = Passphrase, this_length = Fin (7 / 2),
          this_charset = [], this_isSpecial = False, this_options = fractional_passphrase\<rparr>
      = Finite 7"
    by (simp add: entropy_field_def calculatePassphraseEntropy_def getWordlist_def
        fractional_passphrase_def Math_log2_def log2_values round_to_hundredths_Finite
        of_rat_divide del: round_to_hundredths.simps)
  show "spec_entropy 4 4 = 8" by (rule spec_entropy_values)
qed

lemma entropy_not_finite:
  assumes "PasswordGenerator_new opts = Inr g" and "this_mode g = Passphrase"
  shows "this_length g = NaN \<Longrightarrow> entropy_field dw g = NotANumber"
    and "this_length g \<noteq> NaN \<Longrightarrow> getWordlist dw g = [] \<Longrightarrow> entropy_field dw g = MinusInfinity"
proof -
  assume "this_length g = NaN"
  then show "entropy_field dw g = NotANumber"
    using assms(2) by (simp add: entropy_field_def calculatePassphraseEntropy_def)
next
  assume n: "this_length g \<noteq> NaN" and e: "getWordlist dw g = []"
  have "\<not> js_lt (this_length g) (Fin 3)" "\<not> js_lt (Fin 20) (this_length g)"
    using assms
    by (auto simp: PasswordGenerator_new_def Let_def js_gt_def split: if_splits sum.splits)
  with n obtain q where q: "this_length g = Fin q" "3 \<le> q"
    by (cases "this_length g") (auto simp: not_less)
  then have "0 < (of_rat q :: real)" by simp
  then show "entropy_field dw g = MinusInfinity"
    using assms(2) q(1) e
    by (simp add: entropy_field_def calculatePassphraseEntropy_def Math_log2_def)
qed

end
